theory Spec2Isabelle
  imports
    Complex_Main
    "HOL-Library.Char_ord"
    "HOL-Library.List_Lexorder"
    "HOL-Library.Product_Lexorder"
    "HOL-Library.Multiset"
begin

section \<open>Strings and paths\<close>

text \<open>
  Go strings are byte sequences; they are modelled as \<^typ>\<open>string\<close> (a list of
  8-bit characters), \<open>len\<close> is \<^const>\<open>length\<close>, and string comparison is the
  byte-wise lexicographic order. The path functions are those of a Unix build of
  the Go standard library (separator \<open>/\<close>, no volume names). They are library
  code, not code of the repository; they are written down here from the library's
  documented behaviour so that the repository's functions can be evaluated.
\<close>

definition HasPrefix :: "string \<Rightarrow> string \<Rightarrow> bool" where
  "HasPrefix s prefix = (take (length prefix) s = prefix)"

definition HasSuffix :: "string \<Rightarrow> string \<Rightarrow> bool" where
  "HasSuffix s suffix =
     (length suffix \<le> length s \<and> drop (length s - length suffix) s = suffix)"

definition TrimSuffix :: "string \<Rightarrow> string \<Rightarrow> string" where
  "TrimSuffix s suffix =
     (if HasSuffix s suffix then take (length s - length suffix) s else s)"

text \<open>\<open>strings.ToLower\<close>, on the ASCII letters (other bytes are left alone).\<close>

definition lower_char :: "char \<Rightarrow> char" where
  "lower_char c = (if CHR ''A'' \<le> c \<and> c \<le> CHR ''Z''
                   then char_of (of_char c + (32::nat)) else c)"

definition ToLower :: "string \<Rightarrow> string" where
  "ToLower s = map lower_char s"

text \<open>\<open>filepath.Base\<close>: the last element of the path, trailing separators removed.\<close>

definition Base :: "string \<Rightarrow> string" where
  "Base path =
     (if path = [] then ''.''
      else let p = rev (dropWhile (\<lambda>c. c = CHR ''/'') (rev path));
               e = rev (takeWhile (\<lambda>c. c \<noteq> CHR ''/'') (rev p))
           in if e = [] then ''/'' else e)"

text \<open>\<open>filepath.Ext\<close>: the suffix starting at the last dot of the last element.\<close>

definition Ext :: "string \<Rightarrow> string" where
  "Ext path =
     (let e = takeWhile (\<lambda>c. c \<noteq> CHR ''/'') (rev path)
      in if CHR ''.'' \<in> set e
         then CHR ''.'' # rev (takeWhile (\<lambda>c. c \<noteq> CHR ''.'') e) else [])"

text \<open>
  \<open>filepath.Clean\<close>, by path elements: empty and \<open>.\<close> elements are dropped, an
  inner \<open>..\<close> removes the element before it, a \<open>..\<close> at the start of a rooted
  path is dropped and one at the start of a relative path is kept; the empty
  result is \<open>.\<close>. The stack of kept elements is held in reverse.
\<close>

fun splitSep :: "string \<Rightarrow> string \<Rightarrow> string list" where
  "splitSep acc [] = [rev acc]"
| "splitSep acc (c # cs) =
     (if c = CHR ''/'' then rev acc # splitSep [] cs else splitSep (c # acc) cs)"

fun cleanElems :: "bool \<Rightarrow> string list \<Rightarrow> string list \<Rightarrow> string list" where
  "cleanElems rooted stack [] = rev stack"
| "cleanElems rooted stack (e # es) =
     (if e = [] \<or> e = ''.'' then cleanElems rooted stack es
      else if e = ''..'' then
        (case stack of
           [] \<Rightarrow> if rooted then cleanElems rooted [] es
                 else cleanElems rooted [''..''] es
         | t # ts \<Rightarrow> if t = ''..'' then cleanElems rooted (e # stack) es
                     else cleanElems rooted ts es)
      else cleanElems rooted (e # stack) es)"

fun joinSep :: "string list \<Rightarrow> string" where
  "joinSep [] = []"
| "joinSep [e] = e"
| "joinSep (e # es) = e @ CHR ''/'' # joinSep es"

definition Clean :: "string \<Rightarrow> string" where
  "Clean path =
     (if path = [] then ''.''
      else let rooted = (hd path = CHR ''/'');
               out = (if rooted then ''/'' else []) @
                     joinSep (cleanElems rooted [] (splitSep [] path))
           in if out = [] then ''.'' else out)"

text \<open>\<open>filepath.Dir\<close>: everything up to the last separator, cleaned.\<close>

definition Dir :: "string \<Rightarrow> string" where
  "Dir path = Clean (rev (dropWhile (\<lambda>c. c \<noteq> CHR ''/'') (rev path)))"

text \<open>\<open>filepath.Join\<close> of two elements: empty elements are ignored, the rest is
  joined by the separator and cleaned; the join of nothing is the empty string.\<close>

definition Join :: "string \<Rightarrow> string \<Rightarrow> string" where
  "Join a b =
     (if a = [] \<and> b = [] then []
      else if a = [] then Clean b
      else if b = [] then Clean a
      else Clean (a @ CHR ''/'' # b))"

subsection \<open>Shell patterns\<close>

text \<open>
  \<open>filepath.Match\<close> follows the library's algorithm: the pattern is cut into
  chunks at the stars outside brackets, each chunk is matched against the start
  of the name, and a star lets the match start later, without crossing a
  separator. \<open>None\<close> stands for the error \<open>ErrBadPattern\<close>. A rune is one byte
  here, which is exact for ASCII patterns and names.
\<close>

fun getEsc :: "string \<Rightarrow> (char \<times> string) option" where
  "getEsc [] = None"
| "getEsc (c # cs) =
     (if c = CHR ''-'' \<or> c = CHR '']'' then None
      else if c = CHR 0x5C then
        (case cs of
           [] \<Rightarrow> None
         | r # nchunk \<Rightarrow> if nchunk = [] then None else Some (r, nchunk))
      else if cs = [] then None else Some (c, cs))"

function matchRanges :: "string \<Rightarrow> char \<Rightarrow> bool \<Rightarrow> nat \<Rightarrow> (bool \<times> string) option" where
  "matchRanges chunk r match nrange =
     (if chunk \<noteq> [] \<and> hd chunk = CHR '']'' \<and> 0 < nrange then Some (match, tl chunk)
      else case getEsc chunk of
        None \<Rightarrow> None
      | Some (lo, chunk1) \<Rightarrow>
          if hd chunk1 = CHR ''-'' then
            (case getEsc (tl chunk1) of
               None \<Rightarrow> None
             | Some (hi, chunk2) \<Rightarrow>
                 matchRanges chunk2 r (match \<or> (lo \<le> r \<and> r \<le> hi)) (nrange + 1))
          else matchRanges chunk1 r (match \<or> r = lo) (nrange + 1))"
  by pat_completeness auto

lemma getEsc_shorter: "getEsc chunk = Some (r, rest) \<Longrightarrow> length rest < length chunk"
  by (cases chunk) (auto split: if_splits list.splits)

termination matchRanges
proof (relation "measure (\<lambda>(chunk, r, match, nrange). length chunk)", goal_cases)
  case 1
  show ?case by simp
next
  case (2 chunk r match nrange x2 lo chunk1 x2a hi chunk2)
  have "length chunk1 < length chunk"
    using 2 getEsc_shorter [of chunk lo chunk1] by simp
  moreover have "length chunk2 < length (tl chunk1)"
    using 2 getEsc_shorter [of "tl chunk1" hi chunk2] by simp
  ultimately show ?case by simp
next
  case (3 chunk r match nrange x2 lo chunk1)
  then show ?case
    using getEsc_shorter [of chunk lo chunk1] by simp
qed

declare matchRanges.simps [simp del]

lemma matchRanges_shorter:
  "matchRanges chunk r match nrange = Some (m, rest) \<Longrightarrow> length rest \<le> length chunk"
proof (induction "length chunk" arbitrary: chunk r match nrange rule: less_induct)
  case less
  have step: "\<And>c r' m' n'. length c < length chunk \<Longrightarrow>
      matchRanges c r' m' n' = Some (m, rest) \<Longrightarrow> length rest \<le> length chunk"
    using less.hyps by fastforce
  from less.prems show ?case
    apply (subst (asm) matchRanges.simps)
    apply (auto split: if_splits option.splits dest!: getEsc_shorter)
       apply (erule step [rotated], simp)+
    done
qed

text \<open>
  \<open>matchChunk\<close>: the chunk against the start of \<open>s\<close>. The result \<open>Some (rest, ok)\<close>
  is the library's \<open>(rest, ok, nil)\<close>. Once the match has failed the loop goes on
  parsing the chunk, to report a malformed pattern, and no longer reads \<open>s\<close>.
\<close>

function matchChunkLoop :: "string \<Rightarrow> string \<Rightarrow> bool \<Rightarrow> (string \<times> bool) option" where
  "matchChunkLoop [] s failed = (if failed then Some ([], False) else Some (s, True))"
| "matchChunkLoop (c # chunk) s failed0 =
     (let failed = (failed0 \<or> s = []) in
      if c = CHR ''['' then
        (let r = (if failed then CHR 0x00 else hd s);
             s1 = (if failed then s else tl s);
             negated = (chunk \<noteq> [] \<and> hd chunk = CHR ''^'');
             chunk1 = (if negated then tl chunk else chunk)
         in case matchRanges chunk1 r False 0 of
              None \<Rightarrow> None
            | Some (match, chunk2) \<Rightarrow>
                matchChunkLoop chunk2 s1 (failed \<or> match = negated))
      else if c = CHR ''?'' then
        matchChunkLoop chunk (if failed then s else tl s)
          (failed \<or> hd s = CHR ''/'')
      else if c = CHR 0x5C then
        (case chunk of
           [] \<Rightarrow> None
         | c1 # chunk1 \<Rightarrow>
             matchChunkLoop chunk1 (if failed then s else tl s) (failed \<or> c1 \<noteq> hd s))
      else matchChunkLoop chunk (if failed then s else tl s) (failed \<or> c \<noteq> hd s))"
  by pat_completeness auto
termination
proof (relation "measure (\<lambda>(chunk, s, failed). length chunk)", goal_cases)
  case (2 c chunk s failed0 failed r s1 negated chunk1 x2 match chunk2)
  have "length chunk2 \<le> length chunk1"
    using 2 matchRanges_shorter [of chunk1 r False 0 match chunk2] by simp
  moreover have "length chunk1 \<le> length chunk"
    using 2 by simp
  ultimately show ?case by simp
qed simp_all

definition matchChunk :: "string \<Rightarrow> string \<Rightarrow> (string \<times> bool) option" where
  "matchChunk chunk s = matchChunkLoop chunk s False"

text \<open>
  \<open>scanChunk\<close>: the leading stars are dropped (\<open>star\<close> records that there was
  one) and the chunk runs up to the next star outside brackets. \<open>scanIndex\<close> is
  the index at which the scan loop stops.
\<close>

fun scanIndex :: "string \<Rightarrow> bool \<Rightarrow> nat" where
  "scanIndex [] inrange = 0"
| "scanIndex (c # cs) inrange =
     (if c = CHR 0x5C then
        (case cs of [] \<Rightarrow> 1 | c1 # cs1 \<Rightarrow> 2 + scanIndex cs1 inrange)
      else if c = CHR ''['' then 1 + scanIndex cs True
      else if c = CHR '']'' then 1 + scanIndex cs False
      else if c = CHR ''*'' then (if inrange then 1 + scanIndex cs inrange else 0)
      else 1 + scanIndex cs inrange)"

definition scanChunk :: "string \<Rightarrow> bool \<times> string \<times> string" where
  "scanChunk pattern =
     (let star = (pattern \<noteq> [] \<and> hd pattern = CHR ''*'');
          p = dropWhile (\<lambda>c. c = CHR ''*'') pattern;
          i = scanIndex p False
      in (star, take i p, drop i p))"

lemma scanChunk_shorter:
  assumes "pattern \<noteq> []" and "scanChunk pattern = (star, chunk, rest)"
  shows "length rest < length pattern"
proof -
  let ?p = "dropWhile (\<lambda>c. c = CHR ''*'') pattern"
  have rest: "rest = drop (scanIndex ?p False) ?p"
    using assms(2) by (simp add: scanChunk_def Let_def)
  show ?thesis
  proof (cases "hd pattern = CHR ''*''")
    case True
    then have "length ?p < length pattern"
      using assms(1) length_dropWhile_le [of "\<lambda>c. c = CHR ''*''" "tl pattern"]
      by (cases pattern) auto
    then show ?thesis using rest by simp
  next
    case False
    then obtain c cs where p: "pattern = c # cs" "c \<noteq> CHR ''*''"
      using assms(1) by (cases pattern) auto
    then have "?p = c # cs" by simp
    moreover have "0 < scanIndex (c # cs) False"
      using p(2) by (auto split: list.splits)
    ultimately show ?thesis using rest p(1) by simp
  qed
qed

text \<open>
  \<open>Match\<close> returns the library's \<open>matched\<close>; where the library returns an error,
  \<open>matched\<close> is false. \<open>matchStar\<close> is the inner loop that lets a star swallow
  one more byte of the name at a time.
\<close>

function Match :: "string \<Rightarrow> string \<Rightarrow> bool"
  and matchStar :: "string \<Rightarrow> string \<Rightarrow> string \<Rightarrow> bool" where
  "Match pattern name =
     (if pattern = [] then name = []
      else case scanChunk pattern of (star, chunk, rest) \<Rightarrow>
        if star \<and> chunk = [] then CHR ''/'' \<notin> set name
        else case matchChunk chunk name of
          None \<Rightarrow> False
        | Some (t, ok) \<Rightarrow>
            if ok \<and> (t = [] \<or> rest \<noteq> []) then Match rest t
            else if star then matchStar chunk rest name
            else False)"
| "matchStar chunk rest [] = False"
| "matchStar chunk rest (c # name) =
     (if c = CHR ''/'' then False
      else case matchChunk chunk name of
        None \<Rightarrow> False
      | Some (t, ok) \<Rightarrow>
          if ok \<and> \<not> (rest = [] \<and> t \<noteq> []) then Match rest t
          else matchStar chunk rest name)"
  by pat_completeness auto
termination
proof (relation "measures
           [\<lambda>x. case x of Inl (pattern, name) \<Rightarrow> length pattern
                 | Inr (chunk, rest, name) \<Rightarrow> length rest,
            \<lambda>x. case x of Inl (pattern, name) \<Rightarrow> 0
                 | Inr (chunk, rest, name) \<Rightarrow> Suc (length name)]")
qed (auto dest: scanChunk_shorter [OF _ sym])

declare Match.simps [simp del]

section \<open>Configuration and selection (package config)\<close>

text \<open>Go's \<open>int\<close> and \<open>int64\<close> are modelled as \<^typ>\<open>int\<close>: sizes and counts of
  a scan stay far below \<open>2^63\<close>, so no operation of the walk wraps around.\<close>

record Config =
  Source :: string
  OutputFile :: string
  MaxFileSize :: int
  IncludePatterns :: "string list"
  ExcludePatterns :: "string list"
  MaxDirDepth :: int
  MaxFiles :: int
  MaxTotalSize :: int

text \<open>The fields \<open>FileCount\<close> and \<open>DirCount\<close> of \<open>Stats\<close> carry a prefix here, since
  the node type has fields of the same names.\<close>

record Stats =
  TotalFiles :: int
  TotalSize :: int
  StatsFileCount :: int
  StatsDirCount :: int

definition Separator :: string where
  "Separator = ''================================================''"

definition getDefaultExcludePatterns :: "string list" where
  "getDefaultExcludePatterns =
     [''.git'', ''.git/'', ''.svn'', ''.svn/'', ''.hg'', ''.hg/'',
      ''.gitignore'', ''.gitattributes'', ''.gitmodules'',
      ''node_modules'', ''node_modules/'',
      ''vendor'', ''vendor/'',
      ''dist'', ''dist/'',
      ''build'', ''build/'',
      ''*.exe'', ''*.dll'', ''*.so'', ''*.dylib'',
      ''*.o'', ''*.obj'', ''*.a'', ''*.lib'',
      ''*.jar'', ''*.war'', ''*.ear'', ''*.zip'',
      ''*.tar.gz'', ''*.rar'',
      ''.idea/'', ''.vscode/'', ''.vs/'',
      ''*.swp'', ''*.swo'',
      ''*.tmp'', ''*.temp'',
      ''.cache/'', ''.sass-cache/'',
      ''.DS_Store'', ''Thumbs.db'',
      ''*.log'']"

definition NewConfig :: Config where
  "NewConfig =
     \<lparr>Source = ''.'', OutputFile = ''digest.txt'', MaxFileSize = 10 * 1024 * 1024,
      IncludePatterns = [], ExcludePatterns = getDefaultExcludePatterns,
      MaxDirDepth = 20, MaxFiles = 10000, MaxTotalSize = 500 * 1024 * 1024\<rparr>"

text \<open>
  The loop over a pattern list, written twice in the source (in \<open>ShouldInclude\<close>
  and in \<open>ShouldExclude\<close>) with the same body: a pattern selects the path when it
  matches the base name as a shell pattern, or when it ends in \<open>/\<close> and the path
  starts with the pattern without that \<open>/\<close>.
\<close>

fun patternLoop :: "string list \<Rightarrow> string \<Rightarrow> bool" where
  "patternLoop [] path = False"
| "patternLoop (pattern # patterns) path =
     (if Match pattern (Base path) then True
      else if HasSuffix pattern ''/'' \<and> HasPrefix path (TrimSuffix pattern ''/'') then True
      else patternLoop patterns path)"

definition ShouldExclude :: "Config \<Rightarrow> string \<Rightarrow> bool" where
  "ShouldExclude c path = patternLoop (ExcludePatterns c) path"

definition ShouldInclude :: "Config \<Rightarrow> string \<Rightarrow> bool" where
  "ShouldInclude c path =
     (if length (IncludePatterns c) = 0 then \<not> ShouldExclude c path
      else patternLoop (IncludePatterns c) path)"

section \<open>The file system\<close>

text \<open>
  The walk reads the file system through \<open>os.Stat\<close>, \<open>os.ReadDir\<close>, \<open>DirEntry.Info\<close>,
  \<open>os.Open\<close>, \<open>File.Read\<close> and \<open>os.ReadFile\<close>. A directory entry is a finite tree:
  a file with the outcome of each call on it, or a directory with the outcome of
  listing it and its entries in the order \<open>os.ReadDir\<close> returns them. The second
  argument of both constructors is the outcome of \<open>Info\<close>: an error or the size.
  For a file, \<open>openErr\<close> is the failure of \<open>os.Open\<close> if it fails, \<open>readErr\<close> a
  failure of \<open>File.Read\<close> other than the end of the file, \<open>bytes\<close> the content and
  \<open>readFileErr\<close> the failure of \<open>os.ReadFile\<close> if it fails. \<open>OS\<close> is what
  \<open>ProcessPath\<close> sees of the system: \<open>os.Stat\<close>, and the working directory that
  \<open>filepath.Abs\<close> asks for when the path is relative.
\<close>

datatype error = ErrNotExist | ErrPermission | ErrNotDir | ErrIO | EOF

record FileInfo =
  infoName :: string
  infoSize :: int
  infoIsDir :: bool

record FileIO =
  openErr :: "error option"
  readErr :: "error option"
  bytes :: string
  readFileErr :: "error option"

datatype DirEntry =
    FsFile string "error + int" FileIO
  | FsDir string "error + int" "error option" "DirEntry list"

fun entryName :: "DirEntry \<Rightarrow> string" where
  "entryName (FsFile name info io) = name"
| "entryName (FsDir name info err entries) = name"

fun entryIsDir :: "DirEntry \<Rightarrow> bool" where
  "entryIsDir (FsFile name info io) = False"
| "entryIsDir (FsDir name info err entries) = True"

fun entryInfo :: "DirEntry \<Rightarrow> error + FileInfo" where
  "entryInfo (FsFile name info io) =
     (case info of Inl err \<Rightarrow> Inl err
      | Inr sz \<Rightarrow> Inr \<lparr>infoName = name, infoSize = sz, infoIsDir = False\<rparr>)"
| "entryInfo (FsDir name info err entries) =
     (case info of Inl err \<Rightarrow> Inl err
      | Inr sz \<Rightarrow> Inr \<lparr>infoName = name, infoSize = sz, infoIsDir = True\<rparr>)"

text \<open>\<open>File.Read\<close> into a buffer of \<open>n > 0\<close> bytes: at the end of the file it
  returns the error \<open>io.EOF\<close>, otherwise the bytes read.\<close>

definition fileRead :: "FileIO \<Rightarrow> nat \<Rightarrow> error + string" where
  "fileRead io n =
     (case readErr io of Some err \<Rightarrow> Inl err
      | None \<Rightarrow> if bytes io = [] then Inl EOF else Inr (take n (bytes io)))"

definition ReadFile :: "FileIO \<Rightarrow> error + string" where
  "ReadFile io = (case readFileErr io of Some err \<Rightarrow> Inl err | None \<Rightarrow> Inr (bytes io))"

record OS =
  Stat :: "string \<Rightarrow> error + DirEntry"
  Getwd :: "error + string"

definition Abs :: "OS \<Rightarrow> string \<Rightarrow> error + string" where
  "Abs os path =
     (if path \<noteq> [] \<and> hd path = CHR ''/'' then Inr (Clean path)
      else case Getwd os of Inl err \<Rightarrow> Inl err | Inr wd \<Rightarrow> Inr (Join wd path))"

section \<open>The walk (package analyzer)\<close>

datatype FileSystemNode = FileSystemNode
  (Name: string) (Path: string) (IsDir: bool) (Size: int) (Depth: int)
  (Content: string) (Children: "FileSystemNode list") (FileCount: int) (DirCount: int)

definition NewFileSystemNode :: "string \<Rightarrow> FileInfo \<Rightarrow> int \<Rightarrow> FileSystemNode" where
  "NewFileSystemNode path info depth =
     FileSystemNode (infoName info) path (infoIsDir info) (infoSize info) depth [] [] 0 0"

text \<open>The assignments to the fields of a node.\<close>

definition setContent :: "string \<Rightarrow> FileSystemNode \<Rightarrow> FileSystemNode" where
  "setContent c n =
     FileSystemNode (Name n) (Path n) (IsDir n) (Size n) (Depth n) c (Children n)
       (FileCount n) (DirCount n)"

definition setChildren :: "FileSystemNode list \<Rightarrow> FileSystemNode \<Rightarrow> FileSystemNode" where
  "setChildren cs n =
     FileSystemNode (Name n) (Path n) (IsDir n) (Size n) (Depth n) (Content n) cs
       (FileCount n) (DirCount n)"

text \<open>The updates of the parent after a subdirectory and after a file: the
  aggregates are folded in and the child is appended.\<close>

definition addDir :: "FileSystemNode \<Rightarrow> FileSystemNode \<Rightarrow> FileSystemNode" where
  "addDir child n =
     FileSystemNode (Name n) (Path n) (IsDir n) (Size n + Size child) (Depth n) (Content n)
       (Children n @ [child]) (FileCount n + FileCount child) (DirCount n + (DirCount child + 1))"

definition addFile :: "FileSystemNode \<Rightarrow> FileSystemNode \<Rightarrow> FileSystemNode" where
  "addFile child n =
     FileSystemNode (Name n) (Path n) (IsDir n) (Size n + Size child) (Depth n) (Content n)
       (Children n @ [child]) (FileCount n + 1) (DirCount n)"

definition binaryExts :: "string list" where
  "binaryExts =
     [''.exe'', ''.dll'', ''.so'', ''.dylib'',
      ''.obj'', ''.o'', ''.a'', ''.lib'',
      ''.bin'', ''.dat'', ''.db'', ''.sqlite'',
      ''.jpg'', ''.jpeg'', ''.png'', ''.gif'',
      ''.pdf'', ''.doc'', ''.docx'', ''.xls'',
      ''.xlsx'', ''.ppt'', ''.pptx'', ''.zip'',
      ''.tar'', ''.gz'', ''.rar'', ''.7z'']"

fun nulLoop :: "string \<Rightarrow> bool" where
  "nulLoop [] = False"
| "nulLoop (b # buf) = (if b = CHR 0x00 then True else nulLoop buf)"

definition isBinaryFile :: "string \<Rightarrow> FileIO \<Rightarrow> bool" where
  "isBinaryFile path io =
     (let ext = ToLower (Ext path) in
      if ext \<in> set binaryExts then True
      else case openErr io of
        Some err \<Rightarrow> True
      | None \<Rightarrow>
          (case fileRead io 512 of
             Inl err \<Rightarrow> True
           | Inr buf \<Rightarrow> nulLoop buf))"

definition processFile :: "FileSystemNode \<Rightarrow> Config \<Rightarrow> FileIO \<Rightarrow> FileSystemNode \<times> error option" where
  "processFile node cfg io =
     (if Size node > MaxFileSize cfg then (setContent ''[File too large]'' node, None)
      else if isBinaryFile (Path node) io then (setContent ''[Binary file]'' node, None)
      else case ReadFile io of
        Inl err \<Rightarrow> (setContent ''[Error reading file]'' node, Some err)
      | Inr content \<Rightarrow> (setContent content node, None))"

text \<open>
  \<open>sortChildren\<close>: the two nested index loops, exchanging the elements at \<open>i\<close>
  and \<open>j\<close> in place. \<open>swapCond a b\<close> is the condition under which the children
  at \<open>i\<close> (\<open>a\<close>) and \<open>j\<close> (\<open>b\<close>) are exchanged.
\<close>

definition swapCond :: "FileSystemNode \<Rightarrow> FileSystemNode \<Rightarrow> bool" where
  "swapCond a b =
     (if \<not> IsDir a \<and> IsDir b then True
      else IsDir a = IsDir b \<and> ToLower (Name a) > ToLower (Name b))"

function sortInner :: "nat \<Rightarrow> nat \<Rightarrow> FileSystemNode list \<Rightarrow> FileSystemNode list" where
  "sortInner i j cs =
     (if j < length cs then
        sortInner i (j + 1)
          (if swapCond (cs ! i) (cs ! j) then cs[i := cs ! j, j := cs ! i] else cs)
      else cs)"
  by pat_completeness auto
termination
  by (relation "measure (\<lambda>(i, j, cs). length cs - j)") auto

declare sortInner.simps [simp del]

lemma length_sortInner: "length (sortInner i j cs) = length cs"
proof (induction i j cs rule: sortInner.induct)
  case (1 i j cs)
  then show ?case by (subst sortInner.simps) simp
qed

function sortOuter :: "nat \<Rightarrow> FileSystemNode list \<Rightarrow> FileSystemNode list" where
  "sortOuter i cs =
     (if i + 1 < length cs then sortOuter (i + 1) (sortInner i (i + 1) cs) else cs)"
  by pat_completeness auto
termination
  by (relation "measure (\<lambda>(i, cs). length cs - i)") (auto simp: length_sortInner)

declare sortOuter.simps [simp del]

definition sortChildren :: "FileSystemNode \<Rightarrow> FileSystemNode" where
  "sortChildren node =
     (if length (Children node) \<le> 1 then node
      else setChildren (sortOuter 0 (Children node)) node)"

text \<open>
  \<open>processDirectory\<close> and the loop over the entries it has read
  (\<open>processEntries\<close>). The node and the traversal-wide \<open>Stats\<close> are passed in and
  returned updated; the last argument is the directory the node's path names,
  whose listing \<open>os.ReadDir\<close> returns. Listing something that is not a directory
  is an error of \<open>os.ReadDir\<close>.
\<close>

fun processDirectory ::
    "FileSystemNode \<Rightarrow> Config \<Rightarrow> Stats \<Rightarrow> DirEntry \<Rightarrow> FileSystemNode \<times> Stats \<times> error option"
  and processEntries ::
    "FileSystemNode \<Rightarrow> Config \<Rightarrow> Stats \<Rightarrow> DirEntry list \<Rightarrow> FileSystemNode \<times> Stats" where
  "processDirectory node cfg stats (FsDir name info err entries) =
     (if Depth node \<ge> MaxDirDepth cfg then (node, stats, None)
      else case err of
        Some e \<Rightarrow> (node, stats, Some e)
      | None \<Rightarrow>
          (case processEntries node cfg stats entries of
             (node1, stats1) \<Rightarrow> (sortChildren node1, stats1, None)))"
| "processDirectory node cfg stats (FsFile name info io) =
     (if Depth node \<ge> MaxDirDepth cfg then (node, stats, None)
      else (node, stats, Some ErrNotDir))"
| "processEntries node cfg stats [] = (node, stats)"
| "processEntries node cfg stats (entry # rest) =
     (let entryPath = Join (Path node) (entryName entry) in
      if \<not> ShouldInclude cfg entryPath \<or> ShouldExclude cfg entryPath
      then processEntries node cfg stats rest
      else case entryInfo entry of
        Inl e \<Rightarrow> processEntries node cfg stats rest
      | Inr info \<Rightarrow>
          (let child = NewFileSystemNode entryPath info (Depth node + 1) in
           case entry of
             FsDir name i err entries \<Rightarrow>
               (case processDirectory child cfg stats entry of
                  (child1, stats1, Some e) \<Rightarrow> processEntries node cfg stats1 rest
                | (child1, stats1, None) \<Rightarrow>
                    processEntries (addDir child1 node) cfg stats1 rest)
           | FsFile name i io \<Rightarrow>
               if TotalFiles stats \<ge> MaxFiles cfg then processEntries node cfg stats rest
               else if TotalSize stats + infoSize info > MaxTotalSize cfg
               then processEntries node cfg stats rest
               else if infoSize info > MaxFileSize cfg then processEntries node cfg stats rest
               else (case processFile child cfg io of
                  (child1, Some e) \<Rightarrow> processEntries node cfg stats rest
                | (child1, None) \<Rightarrow>
                    processEntries (addFile child1 node) cfg
                      (stats\<lparr>TotalFiles := TotalFiles stats + 1,
                             TotalSize := TotalSize stats + Size child1\<rparr>) rest)))"

definition ProcessPath :: "OS \<Rightarrow> string \<Rightarrow> Config \<Rightarrow> FileSystemNode option \<times> error option" where
  "ProcessPath os path cfg =
     (case Stat os path of
        Inl err \<Rightarrow> (None, Some err)
      | Inr entry \<Rightarrow>
          (case entryInfo entry of
             Inl err \<Rightarrow> (None, Some err)
           | Inr info \<Rightarrow>
               (case Abs os path of
                  Inl err \<Rightarrow> (None, Some err)
                | Inr absPath \<Rightarrow>
                    (let root = NewFileSystemNode absPath info 0;
                         stats = \<lparr>TotalFiles = 0, TotalSize = 0,
                                  StatsFileCount = 0, StatsDirCount = 0\<rparr>
                     in case entry of
                          FsDir name i err entries \<Rightarrow>
                            (case processDirectory root cfg stats entry of
                               (root1, stats1, err1) \<Rightarrow> (Some root1, err1))
                        | FsFile name i io \<Rightarrow>
                            (case processFile root cfg io of
                               (root1, err1) \<Rightarrow> (Some root1, err1))))))"

section \<open>Rendering (package formatter)\<close>

subsection \<open>The verbs of \<open>fmt.Sprintf\<close>\<close>












subsection \<open>Sizes and token counts\<close>







subsection \<open>Summary and file contents\<close>

definition newline :: string where
  "newline = [CHR 0x0A]"



definition formatFileContent :: "FileSystemNode \<Rightarrow> string" where
  "formatFileContent node =
     (if IsDir node then []
      else let relPath0 = Base (Dir (Path node));
               relPath = (if relPath0 = ''.'' then [] else relPath0 @ ''/'')
           in Separator @ newline @ ''FILE: '' @ relPath @ Name node @ newline @
              Separator @ newline @ Content node @ newline @ newline)"

text \<open>\<open>formatDirectoryContent\<close> appends to the builder, which is passed in and
  returned.\<close>

fun formatDirectoryContent :: "FileSystemNode \<Rightarrow> string \<Rightarrow> string"
  and formatChildren :: "FileSystemNode list \<Rightarrow> string \<Rightarrow> string" where
  "formatDirectoryContent (FileSystemNode name path isDir sz depth content children fc dc)
       builder =
     (if \<not> isDir
      then builder @
           formatFileContent (FileSystemNode name path isDir sz depth content children fc dc)
      else formatChildren children builder)"
| "formatChildren [] builder = builder"
| "formatChildren (child # rest) builder =
     formatChildren rest (formatDirectoryContent child builder)"

definition formatFileContents :: "FileSystemNode \<Rightarrow> string" where
  "formatFileContents node =
     (if \<not> IsDir node then formatFileContent node
      else formatDirectoryContent node [])"

section \<open>Notions used to state the properties\<close>

text \<open>The nodes of a tree, the node itself first, and the file nodes among them
  in the order of the rendering.\<close>

fun subnodes :: "FileSystemNode \<Rightarrow> FileSystemNode list" where
  "subnodes (FileSystemNode name path isDir sz depth content children fc dc) =
     FileSystemNode name path isDir sz depth content children fc dc #
     concat (map subnodes children)"





text \<open>The order of the children of a directory: directories before files, and
  within a kind by the lower-cased name; \<open>sortKey\<close> is the same order as a pair.\<close>

definition childOrder :: "FileSystemNode \<Rightarrow> FileSystemNode \<Rightarrow> bool" where
  "childOrder a b \<longleftrightarrow>
     (IsDir a \<and> \<not> IsDir b) \<or>
     (IsDir a = IsDir b \<and> ToLower (Name a) \<le> ToLower (Name b))"

definition sortKey :: "FileSystemNode \<Rightarrow> bool \<times> string" where
  "sortKey n = (\<not> IsDir n, ToLower (Name n))"

text \<open>The sums of the aggregate invariant over a list of children.\<close>

definition fcSum :: "FileSystemNode list \<Rightarrow> int" where
  "fcSum cs = (\<Sum>c\<leftarrow>cs. if IsDir c then FileCount c else 1)"

definition dcSum :: "FileSystemNode list \<Rightarrow> int" where
  "dcSum cs = (\<Sum>c\<leftarrow>cs. if IsDir c then DirCount c + 1 else 0)"

text \<open>
  \<open>aggregated d n\<close>: the node \<open>n\<close> carries the aggregates of the entry \<open>d\<close> it
  was built from. For a file that is its size; for a directory the size is the
  size \<open>Info\<close> reports for the directory itself plus the sizes of the children,
  the counts are the sums over the children, and every child is in its turn the
  aggregate of an entry of the directory.
\<close>

fun aggregated :: "DirEntry \<Rightarrow> FileSystemNode \<Rightarrow> bool" where
  "aggregated (FsFile name info io) n \<longleftrightarrow>
     \<not> IsDir n \<and> Name n = name \<and> info = Inr (Size n)"
| "aggregated (FsDir name info err entries) n \<longleftrightarrow>
     IsDir n \<and> Name n = name \<and>
     (case info of
        Inl e \<Rightarrow> False
      | Inr own \<Rightarrow> Size n = own + sum_list (map Size (Children n))) \<and>
     FileCount n = fcSum (Children n) \<and>
     DirCount n = dcSum (Children n) \<and>
     (\<forall>c\<in>set (Children n). \<exists>e\<in>set entries. aggregated e c)"

text \<open>Notions of the proofs: the invariant of the outer loop of the sort (the
  first \<open>i\<close> positions are final), the entries of a directory, the fields that
  the walk never changes, and \<open>childFrom cfg node entry c\<close>: the loop of
  \<open>processDirectory\<close> on \<open>node\<close> has built the child \<open>c\<close> from \<open>entry\<close>.\<close>

definition sortedUpTo :: "nat \<Rightarrow> FileSystemNode list \<Rightarrow> bool" where
  "sortedUpTo i cs \<longleftrightarrow>
     (\<forall>a b. a < i \<and> a < b \<and> b < length cs \<longrightarrow> sortKey (cs ! a) \<le> sortKey (cs ! b))"

fun entriesOf :: "DirEntry \<Rightarrow> DirEntry list" where
  "entriesOf (FsFile name info io) = []"
| "entriesOf (FsDir name info err entries) = entries"

definition sameEntry :: "FileSystemNode \<Rightarrow> FileSystemNode \<Rightarrow> bool" where
  "sameEntry a b \<longleftrightarrow>
     Name a = Name b \<and> Path a = Path b \<and> IsDir a = IsDir b \<and> Depth a = Depth b \<and>
     Content a = Content b"

definition childFrom :: "Config \<Rightarrow> FileSystemNode \<Rightarrow> DirEntry \<Rightarrow> FileSystemNode \<Rightarrow> bool" where
  "childFrom cfg node entry c \<longleftrightarrow>
     (let path = Join (Path node) (entryName entry) in
      ShouldInclude cfg path \<and> \<not> ShouldExclude cfg path \<and>
      (\<exists>info. entryInfo entry = Inr info \<and>
         (case entry of
            FsFile nm i io \<Rightarrow>
              infoSize info \<le> MaxFileSize cfg \<and>
              processFile (NewFileSystemNode path info (Depth node + 1)) cfg io = (c, None)
          | FsDir nm i err es \<Rightarrow>
              (\<exists>st st'. processDirectory (NewFileSystemNode path info (Depth node + 1))
                           cfg st entry = (c, st', None)))))"

section \<open>Properties of the content classifier\<close>

lemma sel_setContent [simp]:
  "Name (setContent c n) = Name n" "Path (setContent c n) = Path n"
  "IsDir (setContent c n) = IsDir n" "Size (setContent c n) = Size n"
  "Depth (setContent c n) = Depth n" "Content (setContent c n) = c"
  "Children (setContent c n) = Children n" "FileCount (setContent c n) = FileCount n"
  "DirCount (setContent c n) = DirCount n"
  by (simp_all add: setContent_def)

lemma nulLoop_iff: "nulLoop buf \<longleftrightarrow> CHR 0x00 \<in> set buf"
  by (induction buf) auto

lemma isBinaryFile_empty: "bytes io = [] \<Longrightarrow> isBinaryFile path io"
  by (simp add: isBinaryFile_def fileRead_def Let_def split: option.splits)

lemma isBinaryFile_nul: "CHR 0x00 \<in> set (take 512 (bytes io)) \<Longrightarrow> isBinaryFile path io"
  by (auto simp: isBinaryFile_def fileRead_def Let_def nulLoop_iff split: option.splits)

text \<open>
  Claim C6. A file that passes the single-file size check and has a NUL byte among
  its first 512 bytes gets the content \<open>[Binary file]\<close> from \<open>processFile\<close>,
  whatever its path (and so its extension) is, with no error; the outcome of
  \<open>os.ReadFile\<close> plays no part in the result, the real content is never read.
\<close>

theorem nul_byte_is_binary:
  assumes "CHR 0x00 \<in> set (take 512 (bytes io))" and "Size node \<le> MaxFileSize cfg"
  shows "processFile node cfg io = (setContent ''[Binary file]'' node, None) \<and>
         Content (fst (processFile node cfg io)) = ''[Binary file]'' \<and>
         processFile node cfg (io\<lparr>readFileErr := r\<rparr>) = processFile node cfg io"
proof -
  have "isBinaryFile (Path node) io"
    using assms(1) by (rule isBinaryFile_nul)
  moreover have "isBinaryFile (Path node) (io\<lparr>readFileErr := r\<rparr>)"
    using assms(1) by (intro isBinaryFile_nul) simp
  ultimately show ?thesis
    using assms(2) by (simp add: processFile_def)
qed

theorem nul_byte_is_binary_witness:
  "CHR 0x00 \<in> set (take 512 (bytes \<lparr>openErr = None, readErr = None,
      bytes = [CHR ''a'', CHR 0x00, CHR ''b''], readFileErr = None\<rparr>)) \<and>
   processFile (FileSystemNode ''main.go'' ''/proj/main.go'' False 3 1 [] [] 0 0)
     NewConfig \<lparr>openErr = None, readErr = None,
      bytes = [CHR ''a'', CHR 0x00, CHR ''b''], readFileErr = None\<rparr> =
   (FileSystemNode ''main.go'' ''/proj/main.go'' False 3 1 ''[Binary file]'' [] 0 0, None)"
  using nul_byte_is_binary
    [of "\<lparr>openErr = None, readErr = None,
      bytes = [CHR ''a'', CHR 0x00, CHR ''b''], readFileErr = None\<rparr>"
        "FileSystemNode ''main.go'' ''/proj/main.go'' False 3 1 [] [] 0 0" NewConfig]
  by (simp add: NewConfig_def setContent_def)

text \<open>
  Claim C10. An empty file is classified as binary: with no earlier failure the
  first \<open>Read\<close> returns \<open>io.EOF\<close>, which \<open>isBinaryFile\<close> answers with true, for
  every path and so for every extension outside the known-binary set too. Once
  the size check has passed (the size is 0, so the configured maximum is not
  negative), \<open>processFile\<close> assigns \<open>[Binary file]\<close> and not the empty content.
\<close>

theorem empty_file_is_binary:
  assumes "bytes io = []" and "Size node \<le> MaxFileSize cfg"
  shows "isBinaryFile (Path node) io \<and>
         (readErr io = None \<longrightarrow> fileRead io 512 = Inl EOF) \<and>
         processFile node cfg io = (setContent ''[Binary file]'' node, None) \<and>
         Content (fst (processFile node cfg io)) = ''[Binary file]''"
  using assms isBinaryFile_empty [of io "Path node"]
  by (simp add: processFile_def fileRead_def)

theorem empty_file_is_binary_witness:
  "bytes \<lparr>openErr = None, readErr = None, bytes = [], readFileErr = None\<rparr> = [] \<and>
   processFile (FileSystemNode ''notes.txt'' ''/proj/notes.txt'' False 0 1 [] [] 0 0)
     NewConfig \<lparr>openErr = None, readErr = None, bytes = [], readFileErr = None\<rparr> =
   (FileSystemNode ''notes.txt'' ''/proj/notes.txt'' False 0 1 ''[Binary file]'' [] 0 0, None)"
  using empty_file_is_binary
    [of "\<lparr>openErr = None, readErr = None, bytes = [], readFileErr = None\<rparr>"
        "FileSystemNode ''notes.txt'' ''/proj/notes.txt'' False 0 1 [] [] 0 0" NewConfig]
  by (simp add: NewConfig_def setContent_def)

section \<open>Properties of the rendering\<close>

subsection \<open>The rounding of \<open>float64\<close> and of \<open>%.1f\<close>\<close>





lemma powi2_pos [simp]: "0 < (2::real) powi k"
  by (simp add: zero_less_power_int)

lemma powi2_add: "(2::real) powi (a + b) = 2 powi a * 2 powi b"
  by (simp add: power_int_add)

lemma powi2_diff: "(2::real) powi (a - b) = 2 powi a / 2 powi b"
  by (simp add: power_int_diff)










subsection \<open>The token estimate and its rendering\<close>












section \<open>Properties of the walk\<close>

subsection \<open>Field updates and the sort as a permutation\<close>

lemma sel_setChildren [simp]:
  "Name (setChildren cs n) = Name n" "Path (setChildren cs n) = Path n"
  "IsDir (setChildren cs n) = IsDir n" "Size (setChildren cs n) = Size n"
  "Depth (setChildren cs n) = Depth n" "Content (setChildren cs n) = Content n"
  "Children (setChildren cs n) = cs" "FileCount (setChildren cs n) = FileCount n"
  "DirCount (setChildren cs n) = DirCount n"
  by (simp_all add: setChildren_def)

lemma sel_addDir [simp]:
  "Name (addDir c n) = Name n" "Path (addDir c n) = Path n"
  "IsDir (addDir c n) = IsDir n" "Size (addDir c n) = Size n + Size c"
  "Depth (addDir c n) = Depth n" "Content (addDir c n) = Content n"
  "Children (addDir c n) = Children n @ [c]"
  "FileCount (addDir c n) = FileCount n + FileCount c"
  "DirCount (addDir c n) = DirCount n + (DirCount c + 1)"
  by (simp_all add: addDir_def)

lemma sel_addFile [simp]:
  "Name (addFile c n) = Name n" "Path (addFile c n) = Path n"
  "IsDir (addFile c n) = IsDir n" "Size (addFile c n) = Size n + Size c"
  "Depth (addFile c n) = Depth n" "Content (addFile c n) = Content n"
  "Children (addFile c n) = Children n @ [c]"
  "FileCount (addFile c n) = FileCount n + 1"
  "DirCount (addFile c n) = DirCount n"
  by (simp_all add: addFile_def)

lemma sel_NewFileSystemNode [simp]:
  "Name (NewFileSystemNode p i d) = infoName i" "Path (NewFileSystemNode p i d) = p"
  "IsDir (NewFileSystemNode p i d) = infoIsDir i" "Size (NewFileSystemNode p i d) = infoSize i"
  "Depth (NewFileSystemNode p i d) = d" "Content (NewFileSystemNode p i d) = []"
  "Children (NewFileSystemNode p i d) = []" "FileCount (NewFileSystemNode p i d) = 0"
  "DirCount (NewFileSystemNode p i d) = 0"
  by (simp_all add: NewFileSystemNode_def)

lemma mset_sortInner: "i < length cs \<Longrightarrow> mset (sortInner i j cs) = mset cs"
proof (induction i j cs rule: sortInner.induct)
  case (1 i j cs)
  show ?case
  proof (cases "j < length cs")
    case True
    let ?cs' = "if swapCond (cs ! i) (cs ! j) then cs[i := cs ! j, j := cs ! i] else cs"
    have "mset ?cs' = mset cs" using True "1.prems" by (simp add: mset_swap)
    moreover have "mset (sortInner i (j + 1) ?cs') = mset ?cs'"
      using "1.IH" [OF True] "1.prems" by simp
    ultimately show ?thesis using True by (subst sortInner.simps) simp
  next
    case False
    then show ?thesis by (subst sortInner.simps) simp
  qed
qed

lemma mset_sortOuter: "mset (sortOuter i cs) = mset cs"
proof (induction i cs rule: sortOuter.induct)
  case (1 i cs)
  show ?case
  proof (cases "i + 1 < length cs")
    case True
    then show ?thesis
      using "1.IH" [OF True] by (subst sortOuter.simps) (simp add: mset_sortInner)
  next
    case False
    then show ?thesis by (subst sortOuter.simps) simp
  qed
qed

lemma mset_sortChildren: "mset (Children (sortChildren n)) = mset (Children n)"
  by (simp add: sortChildren_def mset_sortOuter)

lemma sel_sortChildren [simp]:
  "Name (sortChildren n) = Name n" "Path (sortChildren n) = Path n"
  "IsDir (sortChildren n) = IsDir n" "Size (sortChildren n) = Size n"
  "Depth (sortChildren n) = Depth n" "Content (sortChildren n) = Content n"
  "FileCount (sortChildren n) = FileCount n" "DirCount (sortChildren n) = DirCount n"
  by (simp_all add: sortChildren_def)

lemma set_sortChildren [simp]: "set (Children (sortChildren n)) = set (Children n)"
  using mset_sortChildren [of n] by (metis set_mset_mset)

subsection \<open>One iteration of the loop over the entries\<close>

lemma processEntries_Cons:
  "processEntries node cfg stats (entry # rest) =
     (case processEntries node cfg stats [entry] of
        (node1, stats1) \<Rightarrow> processEntries node1 cfg stats1 rest)"
  by (simp add: Let_def split: sum.splits DirEntry.splits prod.splits option.splits)

lemma processEntries_single:
  assumes "processEntries node cfg stats [entry] = (node', stats')"
  shows "node' = node \<or>
         (\<exists>c. childFrom cfg node entry c \<and>
              (entryIsDir entry \<and> node' = addDir c node \<or>
               \<not> entryIsDir entry \<and> node' = addFile c node))"
proof (cases entry)
  case (FsFile nm i io)
  with assms show ?thesis
    by (auto simp: Let_def childFrom_def split: sum.splits prod.splits option.splits if_splits)
next
  case (FsDir nm i err es)
  with assms show ?thesis
    apply (simp add: Let_def childFrom_def split: sum.splits prod.splits option.splits if_splits del: processDirectory.simps)
    apply blast
    done
qed

lemma sameEntry_refl [simp]: "sameEntry a a"
  by (simp add: sameEntry_def)

lemma processEntries_frame:
  "processEntries node cfg stats es = (node', stats') \<Longrightarrow> sameEntry node' node"
proof (induction es arbitrary: node stats)
  case Nil
  then show ?case by simp
next
  case (Cons e es)
  obtain n1 s1 where one: "processEntries node cfg stats [e] = (n1, s1)"
    by (cases "processEntries node cfg stats [e]")
  then have rest: "processEntries n1 cfg s1 es = (node', stats')"
    using Cons.prems by (subst (asm) processEntries_Cons) simp
  have "sameEntry n1 node"
    using processEntries_single [OF one] by (auto simp: sameEntry_def)
  moreover have "sameEntry node' n1"
    using Cons.IH [OF rest] .
  ultimately show ?case by (simp add: sameEntry_def)
qed

lemma processDirectory_frame:
  "processDirectory node cfg stats d = (node', stats', err) \<Longrightarrow> sameEntry node' node"
proof (cases d)
  case (FsFile nm i io)
  then show "processDirectory node cfg stats d = (node', stats', err) \<Longrightarrow> ?thesis"
    by (auto split: if_splits)
next
  case (FsDir nm i e es)
  assume r: "processDirectory node cfg stats d = (node', stats', err)"
  show ?thesis
  proof (cases "Depth node \<ge> MaxDirDepth cfg \<or> e \<noteq> None")
    case True
    with r FsDir show ?thesis by (auto split: if_splits option.splits)
  next
    case False
    obtain n1 s1 where pe: "processEntries node cfg stats es = (n1, s1)"
      by (cases "processEntries node cfg stats es")
    with r FsDir False have "node' = sortChildren n1" by auto
    with processEntries_frame [OF pe] show ?thesis by (simp add: sameEntry_def)
  qed
qed

lemma processFile_frame:
  "processFile node cfg io = (node', err) \<Longrightarrow>
     Name node' = Name node \<and> Path node' = Path node \<and> IsDir node' = IsDir node \<and>
     Size node' = Size node \<and> Depth node' = Depth node \<and> Children node' = Children node \<and>
     FileCount node' = FileCount node \<and> DirCount node' = DirCount node"
  by (auto simp: processFile_def split: if_splits sum.splits)

lemma entryInfo_fields:
  "entryInfo e = Inr info \<Longrightarrow> infoName info = entryName e \<and> infoIsDir info = entryIsDir e"
  by (cases e) (auto split: sum.splits)

lemma childFrom_fields:
  assumes "childFrom cfg node e c"
  shows "Path c = Join (Path node) (entryName e)" and "Name c = entryName e"
    and "Depth c = Depth node + 1" and "IsDir c = entryIsDir e"
    and "ShouldInclude cfg (Path c)" and "\<not> ShouldExclude cfg (Path c)"
proof -
  have "Path c = Join (Path node) (entryName e) \<and> Name c = entryName e \<and>
        Depth c = Depth node + 1 \<and> IsDir c = entryIsDir e"
  proof (cases e)
    case (FsFile nm i io)
    with assms show ?thesis
      by (auto simp: childFrom_def Let_def dest!: processFile_frame split: sum.splits)
  next
    case (FsDir nm i err es)
    with assms show ?thesis
      by (auto simp: childFrom_def Let_def sameEntry_def simp del: processDirectory.simps
          dest!: processDirectory_frame split: sum.splits)
  qed
  moreover have "ShouldInclude cfg (Join (Path node) (entryName e)) \<and>
      \<not> ShouldExclude cfg (Join (Path node) (entryName e))"
    using assms by (simp add: childFrom_def Let_def)
  ultimately show "Path c = Join (Path node) (entryName e)" and "Name c = entryName e"
    and "Depth c = Depth node + 1" and "IsDir c = entryIsDir e"
    and "ShouldInclude cfg (Path c)" and "\<not> ShouldExclude cfg (Path c)"
    by simp_all
qed

lemma childFrom_file:
  assumes "childFrom cfg node e c" and "\<not> IsDir c"
  shows "Children c = []" and "Size c \<le> MaxFileSize cfg"
proof -
  from assms childFrom_fields(4) [OF assms(1)] obtain nm i io where e: "e = FsFile nm i io"
    by (cases e) auto
  with assms(1) show "Children c = []" and "Size c \<le> MaxFileSize cfg"
    by (auto simp: childFrom_def Let_def dest!: processFile_frame)
qed

lemma childFrom_cong:
  "Path a = Path b \<Longrightarrow> Depth a = Depth b \<Longrightarrow> childFrom cfg a e c = childFrom cfg b e c"
  by (cases e) (simp_all add: childFrom_def Let_def del: processDirectory.simps)

lemma processEntries_result:
  assumes "processEntries node cfg stats es = (node', stats')"
  shows "\<exists>new. Children node' = Children node @ new \<and>
           (\<forall>c\<in>set new. \<exists>e\<in>set es. childFrom cfg node e c) \<and>
           Size node' = Size node + sum_list (map Size new) \<and>
           FileCount node' = FileCount node + fcSum new \<and>
           DirCount node' = DirCount node + dcSum new"
  using assms
proof (induction es arbitrary: node stats)
  case Nil
  then show ?case by (auto simp: fcSum_def dcSum_def)
next
  case (Cons e es)
  obtain n1 s1 where one: "processEntries node cfg stats [e] = (n1, s1)"
    by (cases "processEntries node cfg stats [e]")
  then have rest: "processEntries n1 cfg s1 es = (node', stats')"
    using Cons.prems by (subst (asm) processEntries_Cons) simp
  have same: "Path n1 = Path node" "Depth n1 = Depth node"
    using processEntries_frame [OF one] by (simp_all add: sameEntry_def)
  from Cons.IH [OF rest] obtain new where new:
    "Children node' = Children n1 @ new"
    "\<forall>c\<in>set new. \<exists>e\<in>set es. childFrom cfg n1 e c"
    "Size node' = Size n1 + sum_list (map Size new)"
    "FileCount node' = FileCount n1 + fcSum new"
    "DirCount node' = DirCount n1 + dcSum new"
    by blast
  have new2: "\<forall>c\<in>set new. \<exists>e\<in>set es. childFrom cfg node e c"
    using new(2) childFrom_cong [OF same] by simp
  from processEntries_single [OF one]
  consider "n1 = node"
    | c where "childFrom cfg node e c" "entryIsDir e" "n1 = addDir c node"
    | c where "childFrom cfg node e c" "\<not> entryIsDir e" "n1 = addFile c node"
    by blast
  then show ?case
  proof cases
    case 1
    with new new2 show ?thesis by auto
  next
    case (2 c)
    have "IsDir c" using childFrom_fields(4) [OF 2(1)] 2(2) by simp
    then have "Children node' = Children node @ (c # new) \<and>
           (\<forall>c\<in>set (c # new). \<exists>e\<in>set (e # es). childFrom cfg node e c) \<and>
           Size node' = Size node + sum_list (map Size (c # new)) \<and>
           FileCount node' = FileCount node + fcSum (c # new) \<and>
           DirCount node' = DirCount node + dcSum (c # new)"
      using new new2 2 by (auto simp: fcSum_def dcSum_def)
    then show ?thesis by blast
  next
    case (3 c)
    have "\<not> IsDir c" using childFrom_fields(4) [OF 3(1)] 3(2) by simp
    then have "Children node' = Children node @ (c # new) \<and>
           (\<forall>c\<in>set (c # new). \<exists>e\<in>set (e # es). childFrom cfg node e c) \<and>
           Size node' = Size node + sum_list (map Size (c # new)) \<and>
           FileCount node' = FileCount node + fcSum (c # new) \<and>
           DirCount node' = DirCount node + dcSum (c # new)"
      using new new2 3 by (auto simp: fcSum_def dcSum_def)
    then show ?thesis by blast
  qed
qed

subsection \<open>The sort\<close>

lemma swapCond_key: "swapCond a b \<longleftrightarrow> sortKey b < sortKey a"
  by (auto simp: swapCond_def sortKey_def less_prod_def)

lemma childOrder_key: "childOrder a b \<longleftrightarrow> sortKey a \<le> sortKey b"
  by (auto simp: childOrder_def sortKey_def less_eq_prod_def)

lemma sortInner_prefix:
  "k < i \<Longrightarrow> i < j \<Longrightarrow> sortInner i j cs ! k = cs ! k"
proof (induction i j cs rule: sortInner.induct)
  case (1 i j cs)
  show ?case
  proof (cases "j < length cs")
    case True
    let ?cs' = "if swapCond (cs ! i) (cs ! j) then cs[i := cs ! j, j := cs ! i] else cs"
    have "sortInner i (j + 1) ?cs' ! k = ?cs' ! k"
      using "1.IH" [OF True] "1.prems" by simp
    moreover have "?cs' ! k = cs ! k" using "1.prems" by simp
    ultimately show ?thesis using True by (subst sortInner.simps) simp
  next
    case False
    then show ?thesis by (subst sortInner.simps) simp
  qed
qed

lemma sortInner_suffix:
  "i < j \<Longrightarrow> i \<le> b \<Longrightarrow> b < length cs \<Longrightarrow>
     \<exists>b'. i \<le> b' \<and> b' < length cs \<and> sortInner i j cs ! b = cs ! b'"
proof (induction i j cs arbitrary: b rule: sortInner.induct)
  case (1 i j cs)
  show ?case
  proof (cases "j < length cs")
    case True
    let ?cs' = "if swapCond (cs ! i) (cs ! j) then cs[i := cs ! j, j := cs ! i] else cs"
    have len: "length ?cs' = length cs" by simp
    obtain b1 where b1: "i \<le> b1" "b1 < length cs" "sortInner i (j + 1) ?cs' ! b = ?cs' ! b1"
      using "1.IH" [OF True, of b] "1.prems" len by auto
    have "\<exists>b'. i \<le> b' \<and> b' < length cs \<and> ?cs' ! b1 = cs ! b'"
    proof (cases "swapCond (cs ! i) (cs ! j)")
      case False
      then show ?thesis using b1 by auto
    next
      case sw: True
      consider "b1 = i" | "b1 = j" | "b1 \<noteq> i" "b1 \<noteq> j" by blast
      then show ?thesis
      proof cases
        case 1
        then have "?cs' ! b1 = cs ! j" using sw True "1.prems" by simp
        then show ?thesis using True "1.prems" by (intro exI [of _ j]) simp
      next
        case 2
        then have "?cs' ! b1 = cs ! i" using sw True "1.prems" by simp
        then show ?thesis using True "1.prems" by (intro exI [of _ i]) simp
      next
        case 3
        then have "?cs' ! b1 = cs ! b1" using sw by simp
        then show ?thesis using b1 by blast
      qed
    qed
    then show ?thesis using b1(3) True by (subst sortInner.simps) simp
  next
    case False
    then show ?thesis using "1.prems" by (subst sortInner.simps) auto
  qed
qed

lemma sortInner_min:
  "i < j \<Longrightarrow> i < length cs \<Longrightarrow>
   (\<forall>k. i < k \<and> k < j \<and> k < length cs \<longrightarrow> sortKey (cs ! i) \<le> sortKey (cs ! k)) \<Longrightarrow>
   i < k \<Longrightarrow> k < length cs \<Longrightarrow>
   sortKey (sortInner i j cs ! i) \<le> sortKey (sortInner i j cs ! k)"
proof (induction i j cs arbitrary: k rule: sortInner.induct)
  case (1 i j cs)
  show ?case
  proof (cases "j < length cs")
    case True
    let ?cs' = "if swapCond (cs ! i) (cs ! j) then cs[i := cs ! j, j := cs ! i] else cs"
    have len: "length ?cs' = length cs" by simp
    have inv: "\<forall>k. i < k \<and> k < j + 1 \<and> k < length ?cs' \<longrightarrow>
                 sortKey (?cs' ! i) \<le> sortKey (?cs' ! k)"
    proof (intro allI impI)
      fix k assume "i < k \<and> k < j + 1 \<and> k < length ?cs'"
      then have k: "i < k" "k < j + 1" "k < length cs" by (simp_all split: if_splits)
      show "sortKey (?cs' ! i) \<le> sortKey (?cs' ! k)"
      proof (cases "swapCond (cs ! i) (cs ! j)")
        case False
        then have "sortKey (cs ! i) \<le> sortKey (cs ! j)"
          by (simp add: swapCond_key)
        with False k "1.prems"(3) show ?thesis
          by (cases "k = j") auto
      next
        case sw: True
        then have lt: "sortKey (cs ! j) < sortKey (cs ! i)"
          by (simp add: swapCond_key)
        have i': "?cs' ! i = cs ! j" using sw True "1.prems" by simp
        show ?thesis
        proof (cases "k = j")
          case True
          then have "?cs' ! k = cs ! i" using sw \<open>j < length cs\<close> by simp
          with i' lt show ?thesis by simp
        next
          case False
          then have "?cs' ! k = cs ! k" using sw k by simp
          moreover have "sortKey (cs ! i) \<le> sortKey (cs ! k)"
            using "1.prems"(3) k False by simp
          ultimately show ?thesis using i' lt by simp
        qed
      qed
    qed
    have "sortKey (sortInner i (j + 1) ?cs' ! i) \<le> sortKey (sortInner i (j + 1) ?cs' ! k)"
      using "1.IH" [OF True _ _ inv, of k] "1.prems" len by simp
    then show ?thesis using True by (subst (1 2) sortInner.simps) simp
  next
    case False
    then show ?thesis using "1.prems" by (subst (1 2) sortInner.simps) auto
  qed
qed

lemma sortedUpTo_step:
  assumes "sortedUpTo i cs" and "i + 1 < length cs"
  shows "sortedUpTo (i + 1) (sortInner i (i + 1) cs)"
  unfolding sortedUpTo_def
proof (intro allI impI)
  let ?r = "sortInner i (i + 1) cs"
  fix a b assume "a < i + 1 \<and> a < b \<and> b < length ?r"
  then have ab: "a < i + 1" "a < b" "b < length cs"
    by (simp_all add: length_sortInner)
  show "sortKey (?r ! a) \<le> sortKey (?r ! b)"
  proof (cases "a = i")
    case True
    have "\<forall>k. i < k \<and> k < i + 1 \<and> k < length cs \<longrightarrow>
            sortKey (cs ! i) \<le> sortKey (cs ! k)"
      by auto
    then show ?thesis
      using sortInner_min [of i "i + 1" cs b] ab assms(2) True by simp
  next
    case False
    then have a: "a < i" using ab by simp
    then have ra: "?r ! a = cs ! a" by (simp add: sortInner_prefix)
    show ?thesis
    proof (cases "b < i")
      case True
      then have "?r ! b = cs ! b" by (simp add: sortInner_prefix)
      with ra assms(1) a ab show ?thesis by (simp add: sortedUpTo_def)
    next
      case False
      then obtain b' where "i \<le> b'" "b' < length cs" "?r ! b = cs ! b'"
        using sortInner_suffix [of i "i + 1" b cs] ab by auto
      with ra assms(1) a show ?thesis by (simp add: sortedUpTo_def)
    qed
  qed
qed

lemma sortOuter_sorted:
  "sortedUpTo i cs \<Longrightarrow> sortedUpTo (length cs) (sortOuter i cs)"
proof (induction i cs rule: sortOuter.induct)
  case (1 i cs)
  show ?case
  proof (cases "i + 1 < length cs")
    case True
    have "sortedUpTo (length (sortInner i (i + 1) cs)) (sortOuter (i + 1) (sortInner i (i + 1) cs))"
      using "1.IH" [OF True] sortedUpTo_step [OF "1.prems" True] by simp
    then show ?thesis using True by (subst sortOuter.simps) (simp add: length_sortInner)
  next
    case False
    then have "sortedUpTo (length cs) cs"
      using "1.prems" unfolding sortedUpTo_def
      by (metis Suc_eq_plus1 Suc_lessI less_trans_Suc not_less_eq)
    then show ?thesis using False by (subst sortOuter.simps) simp
  qed
qed

lemma sortChildren_sorted: "sorted_wrt childOrder (Children (sortChildren n))"
proof (cases "length (Children n) \<le> 1")
  case True
  then have "sorted_wrt childOrder (Children n)"
    by (simp add: sorted_wrt_iff_nth_less)
  with True show ?thesis by (simp add: sortChildren_def)
next
  case False
  have "sortedUpTo (length (Children n)) (sortOuter 0 (Children n))"
    using sortOuter_sorted [of 0 "Children n"] by (simp add: sortedUpTo_def)
  then have "sorted_wrt childOrder (sortOuter 0 (Children n))"
    by (simp add: sorted_wrt_iff_nth_less sortedUpTo_def childOrder_key mset_sortOuter
        flip: size_mset)
  with False show ?thesis by (simp add: sortChildren_def)
qed

subsection \<open>The result of a directory and its descendants\<close>

lemma sum_list_mset_cong:
  assumes "mset xs = mset ys"
  shows "sum_list (map f xs) = (sum_list (map f ys) :: int)"
proof -
  have "sum_mset (mset (map f xs)) = sum_mset (mset (map f ys))"
    using assms by simp
  then show ?thesis by (simp only: sum_mset_sum_list)
qed

lemma processDirectory_cases:
  assumes "processDirectory node cfg stats d = (node', stats', err)"
  shows "node' = node \<and> stats' = stats \<or>
         (\<exists>nm i es n1. d = FsDir nm i None es \<and> Depth node < MaxDirDepth cfg \<and>
            processEntries node cfg stats es = (n1, stats') \<and>
            node' = sortChildren n1 \<and> err = None)"
proof (cases d)
  case (FsFile nm i io)
  with assms show ?thesis by (simp split: if_splits)
next
  case (FsDir nm i e es)
  show ?thesis
  proof (cases "Depth node \<ge> MaxDirDepth cfg")
    case True
    with assms FsDir show ?thesis by simp
  next
    case False
    note deep = False
    show ?thesis
    proof (cases e)
      case (Some a)
      with assms FsDir deep show ?thesis by simp
    next
      case None
      obtain n1 s1 where pe: "processEntries node cfg stats es = (n1, s1)"
        by (cases "processEntries node cfg stats es")
      with assms FsDir deep None show ?thesis by simp
    qed
  qed
qed
lemma processDirectory_fresh:
  assumes "processDirectory node cfg stats d = (node', stats', err)"
    and "Children node = []" and "FileCount node = 0" and "DirCount node = 0"
  shows "Size node' = Size node + sum_list (map Size (Children node'))"
    and "FileCount node' = fcSum (Children node')"
    and "DirCount node' = dcSum (Children node')"
    and "sorted_wrt childOrder (Children node')"
    and "\<forall>c\<in>set (Children node'). \<exists>e\<in>set (entriesOf d). childFrom cfg node' e c"
proof -
  have main: "Size node' = Size node + sum_list (map Size (Children node')) \<and>
        FileCount node' = fcSum (Children node') \<and>
        DirCount node' = dcSum (Children node') \<and>
        (\<forall>c\<in>set (Children node'). \<exists>e\<in>set (entriesOf d). childFrom cfg node e c) \<and>
        sorted_wrt childOrder (Children node')"
  proof (cases "node' = node")
    case True
    with assms(2-4) show ?thesis by (simp add: fcSum_def dcSum_def)
  next
    case False
    with processDirectory_cases [OF assms(1)] obtain nm i es n1 where d: "d = FsDir nm i None es"
      and pe: "processEntries node cfg stats es = (n1, stats')"
      and n': "node' = sortChildren n1"
      by blast
    from processEntries_result [OF pe] assms(2-4) obtain new where new:
      "Children n1 = new" "\<forall>c\<in>set new. \<exists>e\<in>set es. childFrom cfg node e c"
      "Size n1 = Size node + sum_list (map Size new)"
      "FileCount n1 = fcSum new" "DirCount n1 = dcSum new"
      by auto
    have m: "mset (Children node') = mset new"
      using n' new(1) mset_sortChildren [of n1] by simp
    have "set (Children node') = set new"
      using n' new(1) by simp
    moreover have "sum_list (map Size (Children node')) = sum_list (map Size new)"
      using m by (rule sum_list_mset_cong)
    moreover have "fcSum (Children node') = fcSum new" "dcSum (Children node') = dcSum new"
      unfolding fcSum_def dcSum_def using m by (rule sum_list_mset_cong)+
    moreover have "sorted_wrt childOrder (Children node')"
      using n' by (simp add: sortChildren_sorted)
    ultimately show ?thesis
      using new(2-5) d n' by simp
  qed
  have cf: "childFrom cfg node e c \<Longrightarrow> childFrom cfg node' e c" for e c
    using processDirectory_frame [OF assms(1)] childFrom_cong [of node' node cfg e c]
    by (simp add: sameEntry_def)
  show "Size node' = Size node + sum_list (map Size (Children node'))"
    and "FileCount node' = fcSum (Children node')"
    and "DirCount node' = dcSum (Children node')"
    and "sorted_wrt childOrder (Children node')"
    using main by simp_all
  have "\<forall>c\<in>set (Children node'). \<exists>e\<in>set (entriesOf d). childFrom cfg node e c"
    using main by simp
  then show "\<forall>c\<in>set (Children node'). \<exists>e\<in>set (entriesOf d). childFrom cfg node' e c"
    using cf by (meson)
qed

lemma set_subnodes:
  "set (subnodes n) = insert n (\<Union>c\<in>set (Children n). set (subnodes c))"
  by (cases n) auto

lemma childFrom_dir:
  assumes "childFrom cfg node e c" and "IsDir c"
  shows "\<exists>path info st st'.
           processDirectory (NewFileSystemNode path info (Depth node + 1)) cfg st e = (c, st', None)"
proof -
  from assms childFrom_fields(4) [OF assms(1)] obtain nm i err es where "e = FsDir nm i err es"
    by (cases e) auto
  with assms(1) show ?thesis
    unfolding childFrom_def Let_def by (simp del: processDirectory.simps) blast
qed

lemma walk_descendants:
  assumes P: "\<And>node e c. childFrom cfg node e c \<Longrightarrow> P c"
  shows "processDirectory node cfg stats d = (node', stats', err) \<Longrightarrow> Children node = [] \<Longrightarrow>
         FileCount node = 0 \<Longrightarrow> DirCount node = 0 \<Longrightarrow>
         \<forall>c\<in>set (Children node'). \<forall>m\<in>set (subnodes c). P m"
proof (induction d arbitrary: node stats node' stats' err)
  case (FsFile nm i io)
  then show ?case by (auto split: if_splits)
next
  case (FsDir nm i e es)
  show ?case
  proof (intro ballI)
    fix c m assume c: "c \<in> set (Children node')" and m: "m \<in> set (subnodes c)"
    from processDirectory_fresh(5) [OF FsDir.prems] c
    obtain en where en: "en \<in> set es" "childFrom cfg node' en c" by auto
    show "P m"
    proof (cases "m = c")
      case True
      then show ?thesis using P [OF en(2)] by simp
    next
      case False
      with m obtain c' where c': "c' \<in> set (Children c)" "m \<in> set (subnodes c')"
        by (auto simp: set_subnodes [of c])
      have "IsDir c"
      proof (rule ccontr)
        assume "\<not> IsDir c"
        from childFrom_file(1) [OF en(2) this] c'(1) show False by simp
      qed
      from childFrom_dir [OF en(2) this] obtain path info st st' where
        pd: "processDirectory (NewFileSystemNode path info (Depth node' + 1)) cfg st en = (c, st', None)"
        by (elim exE)
      have "\<forall>c\<in>set (Children c). \<forall>m\<in>set (subnodes c). P m"
        by (rule FsDir.IH [OF en(1) pd]) simp_all
      with c' show ?thesis by blast
    qed
  qed
qed

subsection \<open>Whole walks\<close>

lemma ProcessPath_cases:
  assumes "ProcessPath os p cfg = (Some tree, err)"
  shows "(\<exists>d info absPath stats stats'.
            Stat os p = Inr d \<and> entryIsDir d \<and> entryInfo d = Inr info \<and>
            processDirectory (NewFileSystemNode absPath info 0) cfg stats d = (tree, stats', err)) \<or>
         (\<exists>nm i io info absPath.
            Stat os p = Inr (FsFile nm i io) \<and> entryInfo (FsFile nm i io) = Inr info \<and>
            processFile (NewFileSystemNode absPath info 0) cfg io = (tree, err))"
proof -
  from assms obtain d where d: "Stat os p = Inr d"
    by (auto simp: ProcessPath_def split: sum.splits)
  from assms d obtain info where info: "entryInfo d = Inr info"
    by (auto simp: ProcessPath_def split: sum.splits)
  from assms d info obtain absPath where a: "Abs os p = Inr absPath"
    by (auto simp: ProcessPath_def split: sum.splits)
  show ?thesis
  proof (cases d)
    case (FsFile nm i io)
    with assms d info a show ?thesis
      by (auto simp: ProcessPath_def Let_def split: sum.splits prod.splits)
  next
    case (FsDir nm i e es)
    let ?st = "\<lparr>TotalFiles = 0, TotalSize = 0, StatsFileCount = 0, StatsDirCount = 0\<rparr>"
    obtain r s e' where pd: "processDirectory (NewFileSystemNode absPath info 0) cfg ?st d = (r, s, e')"
      by (cases "processDirectory (NewFileSystemNode absPath info 0) cfg ?st d") auto
    have "r = tree" "e' = err"
      using assms d a pd FsDir info
      by (simp_all add: ProcessPath_def Let_def del: processDirectory.simps entryInfo.simps)
    moreover have "entryIsDir d" using FsDir by simp
    ultimately show ?thesis using pd d info by blast
  qed
qed

lemma ProcessPath_descendants:
  assumes P: "\<And>node e c. childFrom cfg node e c \<Longrightarrow> P c"
    and "ProcessPath os p cfg = (Some tree, err)"
  shows "\<forall>c\<in>set (Children tree). \<forall>m\<in>set (subnodes c). P m"
  using ProcessPath_cases [OF assms(2)]
proof (elim disjE exE conjE)
  fix d info absPath stats stats'
  assume pd: "processDirectory (NewFileSystemNode absPath info 0) cfg stats d = (tree, stats', err)"
  show ?thesis
    by (rule walk_descendants [where cfg = cfg and P = P, OF P pd]) simp_all
next
  fix nm i io info absPath
  assume "processFile (NewFileSystemNode absPath info 0) cfg io = (tree, err)"
  then have "Children tree = []" by (auto dest!: processFile_frame)
  then show ?thesis by simp
qed

lemma processEntries_skip:
  "\<not> ShouldInclude cfg (Join (Path node) (entryName entry)) \<or>
   ShouldExclude cfg (Join (Path node) (entryName entry)) \<Longrightarrow>
   processEntries node cfg stats (entry # rest) = processEntries node cfg stats rest"
  by (simp add: Let_def)

text \<open>
  Claim C1, as the code has it. An excluded path is never admitted by the walk:
  the loop of \<open>processDirectory\<close> skips an entry whose path \<open>ShouldExclude\<close>
  selects, whatever the include patterns are, so every node below the tree of a
  result has a path that is included and not excluded. \<open>ShouldInclude\<close> alone
  answers false for an excluded path when there are no include patterns; with
  include patterns it looks at those only.
\<close>

theorem exclusion_dominates:
  "(ShouldExclude cfg path \<and> IncludePatterns cfg = [] \<longrightarrow> \<not> ShouldInclude cfg path) \<and>
   (ShouldExclude cfg (Join (Path node) (entryName entry)) \<longrightarrow>
      processEntries node cfg stats (entry # rest) = processEntries node cfg stats rest) \<and>
   (ProcessPath os p cfg = (Some tree, err) \<longrightarrow>
      (\<forall>c\<in>set (Children tree). \<forall>m\<in>set (subnodes c).
         ShouldInclude cfg (Path m) \<and> \<not> ShouldExclude cfg (Path m)))"
proof (intro conjI impI)
  assume "ShouldExclude cfg path \<and> IncludePatterns cfg = []"
  then show "\<not> ShouldInclude cfg path" by (simp add: ShouldInclude_def)
next
  assume "ShouldExclude cfg (Join (Path node) (entryName entry))"
  then show "processEntries node cfg stats (entry # rest) = processEntries node cfg stats rest"
    by (intro processEntries_skip) simp
next
  assume "ProcessPath os p cfg = (Some tree, err)"
  then show "\<forall>c\<in>set (Children tree). \<forall>m\<in>set (subnodes c).
         ShouldInclude cfg (Path m) \<and> \<not> ShouldExclude cfg (Path m)"
    by (rule ProcessPath_descendants [rotated]) (simp add: childFrom_fields(5,6))
qed

theorem exclusion_dominates_witness:
  "ShouldExclude NewConfig (Join ''/proj'' ''vendor'') \<and>
   processEntries (FileSystemNode ''proj'' ''/proj'' True 4096 0 [] [] 0 0) NewConfig
     \<lparr>TotalFiles = 0, TotalSize = 0, StatsFileCount = 0, StatsDirCount = 0\<rparr>
     [FsDir ''vendor'' (Inr 4096) None
        [FsFile ''lib.go'' (Inr 3)
           \<lparr>openErr = None, readErr = None, bytes = ''lib'', readFileErr = None\<rparr>],
      FsFile ''web.go'' (Inr 12)
        \<lparr>openErr = None, readErr = None, bytes = ''package main'', readFileErr = None\<rparr>] =
   processEntries (FileSystemNode ''proj'' ''/proj'' True 4096 0 [] [] 0 0) NewConfig
     \<lparr>TotalFiles = 0, TotalSize = 0, StatsFileCount = 0, StatsDirCount = 0\<rparr>
     [FsFile ''web.go'' (Inr 12)
        \<lparr>openErr = None, readErr = None, bytes = ''package main'', readFileErr = None\<rparr>]"
proof -
  have h: "ShouldExclude NewConfig (Join ''/proj'' ''vendor'')"
    by code_simp
  let ?node = "FileSystemNode ''proj'' ''/proj'' True 4096 0 [] [] 0 0"
  let ?vendor = "FsDir ''vendor'' (Inr 4096) None
        [FsFile ''lib.go'' (Inr 3)
           \<lparr>openErr = None, readErr = None, bytes = ''lib'', readFileErr = None\<rparr>]"
  have p: "Join (Path ?node) (entryName ?vendor) = Join ''/proj'' ''vendor''"
    by simp
  show ?thesis
    using h exclusion_dominates [of NewConfig "Join ''/proj'' ''vendor''" ?node ?vendor]
    unfolding p by blast
qed

theorem exclusion_dominates_counterexample:
  "ShouldExclude
     (NewConfig\<lparr>IncludePatterns := [''*.go''],
                ExcludePatterns := getDefaultExcludePatterns @ [''main.go'']\<rparr>)
     ''/proj/main.go'' \<and>
   ShouldInclude
     (NewConfig\<lparr>IncludePatterns := [''*.go''],
                ExcludePatterns := getDefaultExcludePatterns @ [''main.go'']\<rparr>)
     ''/proj/main.go''"
  by code_simp

text \<open>
  Claim C3, as the code has it. In a directory walk a file whose size exceeds the
  maximum single-file size is skipped by the loop: the parent and the counters
  are as if the entry were not there, so it has no node and adds nothing to the
  token estimate, and every file node below the root of a result is within the
  maximum. The content \<open>[File too large]\<close> is what \<open>processFile\<close> assigns, which
  the walk reaches for an oversized file only when the file is the root itself.
\<close>

theorem oversized_file_omitted:
  "(entryInfo (FsFile nm i io) = Inr info \<and> MaxFileSize cfg < infoSize info \<longrightarrow>
      processEntries node cfg stats (FsFile nm i io # rest) =
      processEntries node cfg stats rest) \<and>
   (ProcessPath os p cfg = (Some tree, err) \<longrightarrow>
      (\<forall>c\<in>set (Children tree). \<forall>m\<in>set (subnodes c).
         \<not> IsDir m \<longrightarrow> Size m \<le> MaxFileSize cfg)) \<and>
   (MaxFileSize cfg < Size node \<longrightarrow>
      processFile node cfg io = (setContent ''[File too large]'' node, None))"
proof (intro conjI impI)
  assume "entryInfo (FsFile nm i io) = Inr info \<and> MaxFileSize cfg < infoSize info"
  then show "processEntries node cfg stats (FsFile nm i io # rest) =
      processEntries node cfg stats rest"
    by (auto simp: Let_def split: sum.splits)
next
  assume "ProcessPath os p cfg = (Some tree, err)"
  then show "\<forall>c\<in>set (Children tree). \<forall>m\<in>set (subnodes c).
         \<not> IsDir m \<longrightarrow> Size m \<le> MaxFileSize cfg"
    by (rule ProcessPath_descendants [rotated]) (simp add: childFrom_file(2))
next
  assume "MaxFileSize cfg < Size node"
  then show "processFile node cfg io = (setContent ''[File too large]'' node, None)"
    by (simp add: processFile_def)
qed

theorem oversized_file_omitted_witness:
  "entryInfo (FsFile ''big.txt'' (Inr 20)
       \<lparr>openErr = None, readErr = None, bytes = ''twenty bytes of text'', readFileErr = None\<rparr>) =
     Inr \<lparr>infoName = ''big.txt'', infoSize = 20, infoIsDir = False\<rparr> \<and>
   processEntries (FileSystemNode ''proj'' ''/proj'' True 4096 0 [] [] 0 0)
     (NewConfig\<lparr>MaxFileSize := 10\<rparr>)
     \<lparr>TotalFiles = 0, TotalSize = 0, StatsFileCount = 0, StatsDirCount = 0\<rparr>
     [FsFile ''big.txt'' (Inr 20)
       \<lparr>openErr = None, readErr = None, bytes = ''twenty bytes of text'', readFileErr = None\<rparr>] =
   (FileSystemNode ''proj'' ''/proj'' True 4096 0 [] [] 0 0,
    \<lparr>TotalFiles = 0, TotalSize = 0, StatsFileCount = 0, StatsDirCount = 0\<rparr>)"
  using oversized_file_omitted
    [of "''big.txt''" "Inr 20"
        "\<lparr>openErr = None, readErr = None, bytes = ''twenty bytes of text'', readFileErr = None\<rparr>"
        "\<lparr>infoName = ''big.txt'', infoSize = 20, infoIsDir = False\<rparr>"
        "NewConfig\<lparr>MaxFileSize := 10\<rparr>"
        "FileSystemNode ''proj'' ''/proj'' True 4096 0 [] [] 0 0"
        "\<lparr>TotalFiles = 0, TotalSize = 0, StatsFileCount = 0, StatsDirCount = 0\<rparr>" "[]"]
  by (simp del: processEntries.simps(2))

theorem oversized_file_omitted_counterexample:
  "ProcessPath
     \<lparr>Stat = (\<lambda>p. if p = ''/proj'' then Inr (FsDir ''proj'' (Inr 4096) None
         [FsFile ''big.txt'' (Inr 20)
            \<lparr>openErr = None, readErr = None, bytes = ''twenty bytes of text'',
             readFileErr = None\<rparr>]) else Inl ErrNotExist),
      Getwd = Inr ''/''\<rparr>
     ''/proj'' (NewConfig\<lparr>MaxFileSize := 10\<rparr>) =
   (Some (FileSystemNode ''proj'' ''/proj'' True 4096 0 [] [] 0 0), None)"
  by code_simp

text \<open>
  Claim C8, as the code has it. When a file has passed the size and binary checks
  and \<open>os.ReadFile\<close> fails, \<open>processFile\<close> sets the content
  \<open>[Error reading file]\<close> and returns the error. The loop of \<open>processDirectory\<close>
  then drops that child and goes on with the remaining entries: the walk is not
  aborted, and the file is not in the tree.
\<close>

theorem read_failure_skips_file:
  "(Size node \<le> MaxFileSize cfg \<and> \<not> isBinaryFile (Path node) io \<and> ReadFile io = Inl e \<longrightarrow>
      processFile node cfg io = (setContent ''[Error reading file]'' node, Some e)) \<and>
   (entryInfo (FsFile nm i io) = Inr info \<and>
    processFile (NewFileSystemNode (Join (Path parent) nm) info (Depth parent + 1)) cfg io =
      (child, Some e) \<longrightarrow>
      processEntries parent cfg stats (FsFile nm i io # rest) =
      processEntries parent cfg stats rest)"
proof (intro conjI impI)
  assume "Size node \<le> MaxFileSize cfg \<and> \<not> isBinaryFile (Path node) io \<and> ReadFile io = Inl e"
  then show "processFile node cfg io = (setContent ''[Error reading file]'' node, Some e)"
    by (simp add: processFile_def)
next
  assume "entryInfo (FsFile nm i io) = Inr info \<and>
    processFile (NewFileSystemNode (Join (Path parent) nm) info (Depth parent + 1)) cfg io =
      (child, Some e)"
  then show "processEntries parent cfg stats (FsFile nm i io # rest) =
      processEntries parent cfg stats rest"
    by (auto simp: Let_def split: sum.splits)
qed

theorem read_failure_skips_file_witness:
  "ReadFile \<lparr>openErr = None, readErr = None, bytes = ''abc'', readFileErr = Some ErrIO\<rparr> =
     Inl ErrIO \<and>
   processFile (FileSystemNode ''bad.txt'' ''/proj/bad.txt'' False 3 1 [] [] 0 0) NewConfig
     \<lparr>openErr = None, readErr = None, bytes = ''abc'', readFileErr = Some ErrIO\<rparr> =
   (FileSystemNode ''bad.txt'' ''/proj/bad.txt'' False 3 1 ''[Error reading file]'' [] 0 0,
    Some ErrIO) \<and>
   processEntries (FileSystemNode ''proj'' ''/proj'' True 4096 0 [] [] 0 0) NewConfig
     \<lparr>TotalFiles = 0, TotalSize = 0, StatsFileCount = 0, StatsDirCount = 0\<rparr>
     [FsFile ''bad.txt'' (Inr 3)
        \<lparr>openErr = None, readErr = None, bytes = ''abc'', readFileErr = Some ErrIO\<rparr>] =
   (FileSystemNode ''proj'' ''/proj'' True 4096 0 [] [] 0 0,
    \<lparr>TotalFiles = 0, TotalSize = 0, StatsFileCount = 0, StatsDirCount = 0\<rparr>)"
proof -
  let ?io = "\<lparr>openErr = None, readErr = None, bytes = ''abc'', readFileErr = Some ErrIO\<rparr>"
  let ?node = "FileSystemNode ''bad.txt'' ''/proj/bad.txt'' False 3 1 [] [] 0 0"
  let ?parent = "FileSystemNode ''proj'' ''/proj'' True 4096 0 [] [] 0 0"
  let ?info = "\<lparr>infoName = ''bad.txt'', infoSize = 3, infoIsDir = False\<rparr>"
  have a: "\<not> isBinaryFile (Path ?node) ?io" "ReadFile ?io = Inl ErrIO"
    "Size ?node \<le> MaxFileSize NewConfig"
    by code_simp+
  have j: "NewFileSystemNode (Join (Path ?parent) ''bad.txt'') ?info (Depth ?parent + 1) = ?node"
    by code_simp
  have pf: "processFile ?node NewConfig ?io = (setContent ''[Error reading file]'' ?node, Some ErrIO)"
    using a read_failure_skips_file [of ?node NewConfig ?io ErrIO] by blast
  have "processEntries ?parent NewConfig
     \<lparr>TotalFiles = 0, TotalSize = 0, StatsFileCount = 0, StatsDirCount = 0\<rparr>
     [FsFile ''bad.txt'' (Inr 3) ?io] =
     processEntries ?parent NewConfig
     \<lparr>TotalFiles = 0, TotalSize = 0, StatsFileCount = 0, StatsDirCount = 0\<rparr> []"
    using pf j read_failure_skips_file
      [where nm = "''bad.txt''" and i = "Inr 3" and io = ?io and info = ?info
         and parent = ?parent and cfg = NewConfig
         and child = "setContent ''[Error reading file]'' ?node" and e = ErrIO]
    by simp
  with a(2) pf show ?thesis by (simp add: setContent_def)
qed

theorem read_failure_skips_file_counterexample:
  "ProcessPath
     \<lparr>Stat = (\<lambda>p. if p = ''/proj'' then Inr (FsDir ''proj'' (Inr 4096) None
         [FsFile ''bad.txt'' (Inr 3)
            \<lparr>openErr = None, readErr = None, bytes = ''abc'', readFileErr = Some ErrIO\<rparr>,
          FsFile ''ok.txt'' (Inr 2)
            \<lparr>openErr = None, readErr = None, bytes = ''ok'', readFileErr = None\<rparr>])
         else Inl ErrNotExist),
      Getwd = Inr ''/''\<rparr>
     ''/proj'' NewConfig =
   (Some (FileSystemNode ''proj'' ''/proj'' True 4098 0 []
      [FileSystemNode ''ok.txt'' ''/proj/ok.txt'' False 2 1 ''ok'' [] 0 0] 1 0), None)"
  by code_simp

lemma processDirectory_at_limit:
  "MaxDirDepth cfg \<le> Depth node \<Longrightarrow> processDirectory node cfg stats d = (node, stats, None)"
  by (cases d) simp_all

lemma limit_node:
  assumes "processDirectory node cfg stats d = (node', stats', err)"
    and "Children node = []" and "FileCount node = 0" and "MaxDirDepth cfg \<le> Depth node'"
  shows "Children node' = [] \<and> FileCount node' = 0"
proof -
  have "Depth node' = Depth node"
    using processDirectory_frame [OF assms(1)] by (simp add: sameEntry_def)
  then have eq: "processDirectory node cfg stats d = (node, stats, None)"
    using assms(4) by (intro processDirectory_at_limit) simp
  have "node' = node"
    using assms(1) unfolding eq by simp
  with assms(2,3) show ?thesis by simp
qed

text \<open>
  Claim C9, as the code has it. \<open>processDirectory\<close> returns at once, with the node
  untouched, when the depth of the node has reached the maximum depth. A
  subdirectory met by a parent one level above the limit is therefore appended
  as a child with no children of its own, and in every result a directory node
  at or beyond the limit has no children and file count 0. With limit 0 this
  node is the root itself; the scenario of the claim is the one of limit 1.
\<close>

theorem depth_limit:
  "(MaxDirDepth cfg \<le> Depth node \<longrightarrow>
      processDirectory node cfg stats d = (node, stats, None)) \<and>
   (ShouldInclude cfg (Join (Path node) nm) \<and> \<not> ShouldExclude cfg (Join (Path node) nm) \<and>
    entryInfo (FsDir nm i e es) = Inr info \<and> MaxDirDepth cfg \<le> Depth node + 1 \<longrightarrow>
      processEntries node cfg stats (FsDir nm i e es # rest) =
      processEntries
        (addDir (NewFileSystemNode (Join (Path node) nm) info (Depth node + 1)) node)
        cfg stats rest) \<and>
   (ProcessPath os p cfg = (Some tree, err) \<longrightarrow>
      (\<forall>m\<in>set (subnodes tree). IsDir m \<and> MaxDirDepth cfg \<le> Depth m \<longrightarrow>
         Children m = [] \<and> FileCount m = 0))"
proof (intro conjI impI)
  assume "MaxDirDepth cfg \<le> Depth node"
  then show "processDirectory node cfg stats d = (node, stats, None)"
    by (rule processDirectory_at_limit)
next
  assume a: "ShouldInclude cfg (Join (Path node) nm) \<and> \<not> ShouldExclude cfg (Join (Path node) nm) \<and>
    entryInfo (FsDir nm i e es) = Inr info \<and> MaxDirDepth cfg \<le> Depth node + 1"
  let ?child = "NewFileSystemNode (Join (Path node) nm) info (Depth node + 1)"
  have "processDirectory ?child cfg stats (FsDir nm i e es) = (?child, stats, None)"
    using a by (intro processDirectory_at_limit) simp
  then show "processEntries node cfg stats (FsDir nm i e es # rest) =
      processEntries (addDir ?child node) cfg stats rest"
    using a by (simp add: Let_def del: processDirectory.simps entryInfo.simps)
next
  assume pp: "ProcessPath os p cfg = (Some tree, err)"
  let ?P = "\<lambda>m. IsDir m \<and> MaxDirDepth cfg \<le> Depth m \<longrightarrow> Children m = [] \<and> FileCount m = 0"
  have below: "\<forall>c\<in>set (Children tree). \<forall>m\<in>set (subnodes c). ?P m"
  proof (rule ProcessPath_descendants [OF _ pp])
    fix node e c assume cf: "childFrom cfg node e c"
    show "?P c"
    proof (intro impI)
      assume c: "IsDir c \<and> MaxDirDepth cfg \<le> Depth c"
      from childFrom_dir [OF cf] c obtain path info st st' where
        "processDirectory (NewFileSystemNode path info (Depth node + 1)) cfg st e = (c, st', None)"
        by (elim exE conjE) blast
      from limit_node [OF this] c show "Children c = [] \<and> FileCount c = 0" by simp
    qed
  qed
  have "?P tree"
    using ProcessPath_cases [OF pp]
  proof (elim disjE exE conjE)
    fix d info absPath stats stats'
    assume "processDirectory (NewFileSystemNode absPath info 0) cfg stats d = (tree, stats', err)"
    from limit_node [OF this] show ?thesis by simp
  next
    fix nm i io info absPath
    assume "entryInfo (FsFile nm i io) = Inr info"
      and "processFile (NewFileSystemNode absPath info 0) cfg io = (tree, err)"
    then have "\<not> IsDir tree"
      by (auto dest!: processFile_frame split: sum.splits)
    then show ?thesis by simp
  qed
  with below show "\<forall>m\<in>set (subnodes tree). ?P m"
    by (subst set_subnodes) blast
qed

theorem depth_limit_witness:
  "ProcessPath
     \<lparr>Stat = (\<lambda>p. if p = ''/proj'' then Inr (FsDir ''proj'' (Inr 4096) None
         [FsDir ''sub'' (Inr 4096) None
            [FsFile ''f.txt'' (Inr 5)
               \<lparr>openErr = None, readErr = None, bytes = ''hello'', readFileErr = None\<rparr>]])
         else Inl ErrNotExist),
      Getwd = Inr ''/''\<rparr>
     ''/proj'' (NewConfig\<lparr>MaxDirDepth := 1\<rparr>) =
   (Some (FileSystemNode ''proj'' ''/proj'' True 8192 0 []
      [FileSystemNode ''sub'' ''/proj/sub'' True 4096 1 [] [] 0 0] 0 1), None) \<and>
   Children (FileSystemNode ''sub'' ''/proj/sub'' True 4096 1 [] [] 0 0) = [] \<and>
   FileCount (FileSystemNode ''sub'' ''/proj/sub'' True 4096 1 [] [] 0 0) = 0"
proof -
  let ?os = "\<lparr>Stat = (\<lambda>p. if p = ''/proj'' then Inr (FsDir ''proj'' (Inr 4096) None
         [FsDir ''sub'' (Inr 4096) None
            [FsFile ''f.txt'' (Inr 5)
               \<lparr>openErr = None, readErr = None, bytes = ''hello'', readFileErr = None\<rparr>]])
         else Inl ErrNotExist),
      Getwd = Inr ''/''\<rparr>"
  let ?sub = "FileSystemNode ''sub'' ''/proj/sub'' True 4096 1 [] [] 0 0"
  let ?root = "FileSystemNode ''proj'' ''/proj'' True 8192 0 [] [?sub] 0 1"
  have pp: "ProcessPath ?os ''/proj'' (NewConfig\<lparr>MaxDirDepth := 1\<rparr>) = (Some ?root, None)"
    by code_simp
  have "\<forall>m\<in>set (subnodes ?root). IsDir m \<and> MaxDirDepth (NewConfig\<lparr>MaxDirDepth := 1\<rparr>) \<le> Depth m \<longrightarrow>
         Children m = [] \<and> FileCount m = 0"
    using pp depth_limit [where os = ?os and p = "''/proj''" and cfg = "NewConfig\<lparr>MaxDirDepth := 1\<rparr>"
        and tree = ?root and err = None]
    by blast
  then have "Children ?sub = [] \<and> FileCount ?sub = 0"
    by simp
  with pp show ?thesis by simp
qed

theorem depth_limit_counterexample:
  "ProcessPath
     \<lparr>Stat = (\<lambda>p. if p = ''/proj'' then Inr (FsDir ''proj'' (Inr 4096) None
         [FsDir ''sub'' (Inr 4096) None
            [FsFile ''f.txt'' (Inr 5)
               \<lparr>openErr = None, readErr = None, bytes = ''hello'', readFileErr = None\<rparr>]])
         else Inl ErrNotExist),
      Getwd = Inr ''/''\<rparr>
     ''/proj'' (NewConfig\<lparr>MaxDirDepth := 0\<rparr>) =
   (Some (FileSystemNode ''proj'' ''/proj'' True 4096 0 [] [] 0 0), None)"
  by code_simp

lemma childFrom_dir_info:
  assumes "childFrom cfg node e c" and "entryIsDir e"
  shows "\<exists>path info st st'. entryInfo e = Inr info \<and>
           processDirectory (NewFileSystemNode path info (Depth node + 1)) cfg st e = (c, st', None)"
proof -
  from assms(2) obtain nm i err es where "e = FsDir nm i err es"
    by (cases e) auto
  with assms(1) show ?thesis
    unfolding childFrom_def Let_def by (simp del: processDirectory.simps entryInfo.simps) blast
qed

lemma childFrom_file_info:
  assumes "childFrom cfg node e c" and "\<not> entryIsDir e"
  shows "aggregated e c"
proof -
  from assms(2) obtain nm i io where e: "e = FsFile nm i io"
    by (cases e) auto
  with assms(1) obtain path info where
    "entryInfo e = Inr info" "processFile (NewFileSystemNode path info (Depth node + 1)) cfg io = (c, None)"
    unfolding childFrom_def Let_def by auto
  then show ?thesis
    using e by (auto dest!: processFile_frame split: sum.splits)
qed

lemma walk_aggregated:
  "processDirectory node cfg stats d = (node', stats', err) \<Longrightarrow>
   node = NewFileSystemNode path info depth \<Longrightarrow> entryInfo d = Inr info \<Longrightarrow> entryIsDir d \<Longrightarrow>
   aggregated d node'"
proof (induction d arbitrary: node stats node' stats' err path info depth)
  case (FsFile nm i io)
  then show ?case by simp
next
  case (FsDir nm i e es)
  note pd = FsDir.prems(1)
  have fresh: "Children node = []" "FileCount node = 0" "DirCount node = 0"
    using FsDir.prems(2) by simp_all
  have same: "IsDir node' = IsDir node" "Name node' = Name node"
    using processDirectory_frame [OF pd] by (simp_all add: sameEntry_def)
  have i: "i = Inr (infoSize info)" "infoName info = nm" "infoIsDir info"
    using FsDir.prems(3) by (auto split: sum.splits)
  have kids: "\<forall>c\<in>set (Children node'). \<exists>en\<in>set es. aggregated en c"
  proof
    fix c assume "c \<in> set (Children node')"
    with processDirectory_fresh(5) [OF pd fresh] obtain en where
      en: "en \<in> set es" "childFrom cfg node' en c" by auto
    have "aggregated en c"
    proof (cases "entryIsDir en")
      case False
      with en(2) show ?thesis by (rule childFrom_file_info)
    next
      case True
      from childFrom_dir_info [OF en(2) True] obtain path' info' st st' where
        "entryInfo en = Inr info'"
        "processDirectory (NewFileSystemNode path' info' (Depth node' + 1)) cfg st en = (c, st', None)"
        by (elim exE conjE)
      then show ?thesis
        using FsDir.IH [OF en(1) _ refl _ True] by blast
    qed
    with en(1) show "\<exists>en\<in>set es. aggregated en c" by blast
  qed
  show ?case
    using processDirectory_fresh(1-3) [OF pd fresh] same i kids FsDir.prems(2)
    by simp
qed

text \<open>
  Claim C2, as the code has it. A directory node starts with the size that
  \<open>Info\<close> reports for the directory itself and its children's sizes are added to
  it: after \<open>processDirectory\<close> the size of the node is that own size plus the
  sum of the sizes of its children, and its file count is the sum over its
  children of 1 for a file and of the child's file count for a directory. This
  holds for every directory node of the tree \<open>ProcessPath\<close> returns
  (\<open>aggregated\<close>, which descends into the children).
\<close>

theorem aggregate_invariant:
  "(processDirectory (NewFileSystemNode path info depth) cfg stats d = (node, stats', err) \<longrightarrow>
      Size node = infoSize info + sum_list (map Size (Children node)) \<and>
      FileCount node = (\<Sum>c\<leftarrow>Children node. if IsDir c then FileCount c else 1)) \<and>
   (ProcessPath os p cfg = (Some tree, err) \<and> Stat os p = Inr d \<longrightarrow> aggregated d tree)"
proof (intro conjI impI)
  assume pd: "processDirectory (NewFileSystemNode path info depth) cfg stats d = (node, stats', err)"
  show "Size node = infoSize info + sum_list (map Size (Children node))"
    using processDirectory_fresh(1) [OF pd] by simp
  show "FileCount node = (\<Sum>c\<leftarrow>Children node. if IsDir c then FileCount c else 1)"
    using processDirectory_fresh(2) [OF pd] by (simp add: fcSum_def)
next
  assume a: "ProcessPath os p cfg = (Some tree, err) \<and> Stat os p = Inr d"
  then have pp: "ProcessPath os p cfg = (Some tree, err)" and st: "Stat os p = Inr d"
    by simp_all
  from ProcessPath_cases [OF pp]
  consider info absPath stats stats' where "entryIsDir d" "entryInfo d = Inr info"
      "processDirectory (NewFileSystemNode absPath info 0) cfg stats d = (tree, stats', err)"
    | nm i io info absPath where "d = FsFile nm i io" "entryInfo (FsFile nm i io) = Inr info"
      "processFile (NewFileSystemNode absPath info 0) cfg io = (tree, err)"
    using st by auto
  then show "aggregated d tree"
  proof cases
    case 1
    show ?thesis
      by (rule walk_aggregated [OF 1(3) refl 1(2) 1(1)])
  next
    case 2
    then show ?thesis
      by (auto dest!: processFile_frame split: sum.splits)
  qed
qed

theorem aggregate_invariant_witness:
  "ProcessPath
     \<lparr>Stat = (\<lambda>p. if p = ''/proj'' then Inr (FsDir ''proj'' (Inr 4096) None
         [FsFile ''a.go'' (Inr 12)
            \<lparr>openErr = None, readErr = None, bytes = ''package main'', readFileErr = None\<rparr>,
          FsDir ''sub'' (Inr 4096) None
            [FsFile ''x.txt'' (Inr 3)
               \<lparr>openErr = None, readErr = None, bytes = ''xyz'', readFileErr = None\<rparr>]])
         else Inl ErrNotExist),
      Getwd = Inr ''/''\<rparr>
     ''/proj'' NewConfig =
   (Some (FileSystemNode ''proj'' ''/proj'' True 8207 0 []
      [FileSystemNode ''sub'' ''/proj/sub'' True 4099 1 []
         [FileSystemNode ''x.txt'' ''/proj/sub/x.txt'' False 3 2 ''xyz'' [] 0 0] 1 0,
       FileSystemNode ''a.go'' ''/proj/a.go'' False 12 1 ''package main'' [] 0 0] 2 1), None) \<and>
   aggregated
     (FsDir ''proj'' (Inr 4096) None
         [FsFile ''a.go'' (Inr 12)
            \<lparr>openErr = None, readErr = None, bytes = ''package main'', readFileErr = None\<rparr>,
          FsDir ''sub'' (Inr 4096) None
            [FsFile ''x.txt'' (Inr 3)
               \<lparr>openErr = None, readErr = None, bytes = ''xyz'', readFileErr = None\<rparr>]])
     (FileSystemNode ''proj'' ''/proj'' True 8207 0 []
      [FileSystemNode ''sub'' ''/proj/sub'' True 4099 1 []
         [FileSystemNode ''x.txt'' ''/proj/sub/x.txt'' False 3 2 ''xyz'' [] 0 0] 1 0,
       FileSystemNode ''a.go'' ''/proj/a.go'' False 12 1 ''package main'' [] 0 0] 2 1)"
proof -
  let ?d = "FsDir ''proj'' (Inr 4096) None
         [FsFile ''a.go'' (Inr 12)
            \<lparr>openErr = None, readErr = None, bytes = ''package main'', readFileErr = None\<rparr>,
          FsDir ''sub'' (Inr 4096) None
            [FsFile ''x.txt'' (Inr 3)
               \<lparr>openErr = None, readErr = None, bytes = ''xyz'', readFileErr = None\<rparr>]]"
  let ?os = "\<lparr>Stat = (\<lambda>p. if p = ''/proj'' then Inr ?d else Inl ErrNotExist),
      Getwd = Inr ''/''\<rparr>"
  let ?root = "FileSystemNode ''proj'' ''/proj'' True 8207 0 []
      [FileSystemNode ''sub'' ''/proj/sub'' True 4099 1 []
         [FileSystemNode ''x.txt'' ''/proj/sub/x.txt'' False 3 2 ''xyz'' [] 0 0] 1 0,
       FileSystemNode ''a.go'' ''/proj/a.go'' False 12 1 ''package main'' [] 0 0] 2 1"
  have pp: "ProcessPath ?os ''/proj'' NewConfig = (Some ?root, None)"
    by code_simp
  have st: "Stat ?os ''/proj'' = Inr ?d"
    by simp
  have "aggregated ?d ?root"
    using pp st aggregate_invariant [where os = ?os and p = "''/proj''" and cfg = NewConfig
        and tree = ?root and err = None and d = ?d]
    by blast
  with pp show ?thesis by blast
qed

theorem aggregate_invariant_counterexample:
  "ProcessPath
     \<lparr>Stat = (\<lambda>p. if p = ''/proj'' then Inr (FsDir ''proj'' (Inr 4096) None
         [FsFile ''a.go'' (Inr 12)
            \<lparr>openErr = None, readErr = None, bytes = ''package main'', readFileErr = None\<rparr>])
         else Inl ErrNotExist),
      Getwd = Inr ''/''\<rparr>
     ''/proj'' NewConfig =
   (Some (FileSystemNode ''proj'' ''/proj'' True 4108 0 []
      [FileSystemNode ''a.go'' ''/proj/a.go'' False 12 1 ''package main'' [] 0 0] 1 0), None) \<and>
   Size (FileSystemNode ''proj'' ''/proj'' True 4108 0 []
      [FileSystemNode ''a.go'' ''/proj/a.go'' False 12 1 ''package main'' [] 0 0] 1 0) = 4108 \<and>
   sum_list (map Size (Children (FileSystemNode ''proj'' ''/proj'' True 4108 0 []
      [FileSystemNode ''a.go'' ''/proj/a.go'' False 12 1 ''package main'' [] 0 0] 1 0))) = 12"
  by code_simp

text \<open>
  Claim C5, as the code has it. \<open>sortChildren\<close> permutes the children into the
  order \<open>childOrder\<close>: directories before files and, within a kind, by
  non-decreasing lower-cased name. After a walk this holds for the children of
  every node of the tree. Names that are equal in lower case are left in the
  order the exchanges produce; the original names are not compared.
\<close>

theorem children_sorted:
  "sorted_wrt childOrder (Children (sortChildren node)) \<and>
   mset (Children (sortChildren node)) = mset (Children node) \<and>
   (ProcessPath os p cfg = (Some tree, err) \<longrightarrow>
      (\<forall>m\<in>set (subnodes tree). sorted_wrt childOrder (Children m)))"
proof (intro conjI impI)
  show "sorted_wrt childOrder (Children (sortChildren node))"
    by (rule sortChildren_sorted)
  show "mset (Children (sortChildren node)) = mset (Children node)"
    by (rule mset_sortChildren)
next
  assume pp: "ProcessPath os p cfg = (Some tree, err)"
  let ?P = "\<lambda>m. sorted_wrt childOrder (Children m)"
  have below: "\<forall>c\<in>set (Children tree). \<forall>m\<in>set (subnodes c). ?P m"
  proof (rule ProcessPath_descendants [OF _ pp])
    fix node e c assume cf: "childFrom cfg node e c"
    show "?P c"
    proof (cases "IsDir c")
      case False
      with childFrom_file(1) [OF cf] show ?thesis by simp
    next
      case True
      from childFrom_dir [OF cf True] obtain path info st st' where
        "processDirectory (NewFileSystemNode path info (Depth node + 1)) cfg st e = (c, st', None)"
        by (elim exE)
      from processDirectory_fresh(4) [OF this] show ?thesis by simp
    qed
  qed
  have "?P tree"
    using ProcessPath_cases [OF pp]
  proof (elim disjE exE conjE)
    fix d info absPath stats stats'
    assume "processDirectory (NewFileSystemNode absPath info 0) cfg stats d = (tree, stats', err)"
    from processDirectory_fresh(4) [OF this] show ?thesis by simp
  next
    fix nm i io info absPath
    assume "processFile (NewFileSystemNode absPath info 0) cfg io = (tree, err)"
    then have "Children tree = []"
      by (auto dest!: processFile_frame)
    then show ?thesis by simp
  qed
  with below show "\<forall>m\<in>set (subnodes tree). ?P m"
    by (subst set_subnodes) blast
qed

theorem children_sorted_witness:
  "ProcessPath
     \<lparr>Stat = (\<lambda>p. if p = ''/proj'' then Inr (FsDir ''proj'' (Inr 4096) None
         [FsFile ''Zeta.md'' (Inr 1)
            \<lparr>openErr = None, readErr = None, bytes = ''z'', readFileErr = None\<rparr>,
          FsFile ''alpha.go'' (Inr 1)
            \<lparr>openErr = None, readErr = None, bytes = ''a'', readFileErr = None\<rparr>,
          FsDir ''src'' (Inr 4096) None []])
         else Inl ErrNotExist),
      Getwd = Inr ''/''\<rparr>
     ''/proj'' NewConfig =
   (Some (FileSystemNode ''proj'' ''/proj'' True 8194 0 []
      [FileSystemNode ''src'' ''/proj/src'' True 4096 1 [] [] 0 0,
       FileSystemNode ''alpha.go'' ''/proj/alpha.go'' False 1 1 ''a'' [] 0 0,
       FileSystemNode ''Zeta.md'' ''/proj/Zeta.md'' False 1 1 ''z'' [] 0 0] 2 1), None) \<and>
   sorted_wrt childOrder
      [FileSystemNode ''src'' ''/proj/src'' True 4096 1 [] [] 0 0,
       FileSystemNode ''alpha.go'' ''/proj/alpha.go'' False 1 1 ''a'' [] 0 0,
       FileSystemNode ''Zeta.md'' ''/proj/Zeta.md'' False 1 1 ''z'' [] 0 0]"
proof -
  let ?os = "\<lparr>Stat = (\<lambda>p. if p = ''/proj'' then Inr (FsDir ''proj'' (Inr 4096) None
         [FsFile ''Zeta.md'' (Inr 1)
            \<lparr>openErr = None, readErr = None, bytes = ''z'', readFileErr = None\<rparr>,
          FsFile ''alpha.go'' (Inr 1)
            \<lparr>openErr = None, readErr = None, bytes = ''a'', readFileErr = None\<rparr>,
          FsDir ''src'' (Inr 4096) None []])
         else Inl ErrNotExist),
      Getwd = Inr ''/''\<rparr>"
  let ?kids = "[FileSystemNode ''src'' ''/proj/src'' True 4096 1 [] [] 0 0,
       FileSystemNode ''alpha.go'' ''/proj/alpha.go'' False 1 1 ''a'' [] 0 0,
       FileSystemNode ''Zeta.md'' ''/proj/Zeta.md'' False 1 1 ''z'' [] 0 0]"
  let ?root = "FileSystemNode ''proj'' ''/proj'' True 8194 0 [] ?kids 2 1"
  have pp: "ProcessPath ?os ''/proj'' NewConfig = (Some ?root, None)"
    by code_simp
  have "\<forall>m\<in>set (subnodes ?root). sorted_wrt childOrder (Children m)"
    using pp children_sorted [where os = ?os and p = "''/proj''" and cfg = NewConfig
        and tree = ?root and err = None]
    by blast
  then have "sorted_wrt childOrder (Children ?root)"
    by (simp del: sorted_wrt.simps)
  with pp show ?thesis by (simp del: sorted_wrt.simps)
qed

theorem children_sorted_counterexample:
  "ProcessPath
     \<lparr>Stat = (\<lambda>p. if p = ''/proj'' then Inr (FsDir ''proj'' (Inr 4096) None
         [FsFile ''Ab'' (Inr 1)
            \<lparr>openErr = None, readErr = None, bytes = ''1'', readFileErr = None\<rparr>,
          FsFile ''aB'' (Inr 1)
            \<lparr>openErr = None, readErr = None, bytes = ''2'', readFileErr = None\<rparr>,
          FsFile ''a_'' (Inr 1)
            \<lparr>openErr = None, readErr = None, bytes = ''3'', readFileErr = None\<rparr>])
         else Inl ErrNotExist),
      Getwd = Inr ''/''\<rparr>
     ''/proj'' NewConfig =
   (Some (FileSystemNode ''proj'' ''/proj'' True 4099 0 []
      [FileSystemNode ''a_'' ''/proj/a_'' False 1 1 ''3'' [] 0 0,
       FileSystemNode ''aB'' ''/proj/aB'' False 1 1 ''2'' [] 0 0,
       FileSystemNode ''Ab'' ''/proj/Ab'' False 1 1 ''1'' [] 0 0] 3 0), None) \<and>
   ToLower ''aB'' = ToLower ''Ab'' \<and> ''Ab'' < ''aB'' \<and> ''aB'' < ''a_''"
  by code_simp

subsection \<open>The header of a file block\<close>

text \<open>
  Claim C4 at a file directly under the scan root: the walk of \<open>/proj\<close>, which
  holds the file \<open>a.go\<close>, gives the file the path \<open>/proj/a.go\<close>, and its block is
  headed \<open>FILE: proj/a.go\<close>. The relative path carries the name of the root and
  is not empty.
\<close>

theorem file_header_of_root_child:
  "ProcessPath
     \<lparr>Stat = (\<lambda>p. if p = ''/proj'' then Inr (FsDir ''proj'' (Inr 4096) None
         [FsFile ''a.go'' (Inr 12)
            \<lparr>openErr = None, readErr = None, bytes = ''package main'', readFileErr = None\<rparr>])
         else Inl ErrNotExist),
      Getwd = Inr ''/''\<rparr>
     ''/proj'' NewConfig =
   (Some (FileSystemNode ''proj'' ''/proj'' True 4108 0 []
      [FileSystemNode ''a.go'' ''/proj/a.go'' False 12 1 ''package main'' [] 0 0] 1 0), None) \<and>
   formatFileContents (FileSystemNode ''proj'' ''/proj'' True 4108 0 []
      [FileSystemNode ''a.go'' ''/proj/a.go'' False 12 1 ''package main'' [] 0 0] 1 0) =
   Separator @ newline @ ''FILE: proj/a.go'' @ newline @ Separator @ newline @
   ''package main'' @ newline @ newline"
  by code_simp

end
